theory Spec2Isabelle
  imports Complex_Main "HOL-Library.Word"
begin

section \<open>Data model\<close>

text \<open>
  The repository is a nonogram game written in TypeScript. Its algorithmic core is the
  seeded generator \<^verbatim>\<open>generatePuzzle\<close> (services/geminiService.ts)
  and the comparisons of the player's grid with the solution in
  \<^verbatim>\<open>App.tsx\<close> (the win check,
  \<^verbatim>\<open>isRowComplete\<close>, \<^verbatim>\<open>isColComplete\<close>),
  together with the seed derivation \<^verbatim>\<open>stringToSeed\<close> /
  \<^verbatim>\<open>startNewGame\<close>.  A JavaScript read
  \<^verbatim>\<open>g[r][c]\<close> throws a TypeError when
  \<^verbatim>\<open>g[r]\<close> is undefined and yields
  \<^verbatim>\<open>undefined\<close> when only the column is out of range. Both are
  written out: the exception is the value \<open>Inl TypeError\<close>, and
  \<^verbatim>\<open>undefined\<close> is \<open>None\<close>.
\<close>

datatype error = TypeError

text \<open>\<^verbatim>\<open>CellState\<close> of types.ts, the three states of a player cell.\<close>

datatype CellState = EMPTY | FILLED | CROSSED

text \<open>
  \<^verbatim>\<open>PuzzleData\<close>: the bundle the generator returns. The seed is a
  JavaScript number; its type is the parameter \<open>'f\<close> (see the section on
  arithmetic below).
\<close>

record 'f PuzzleData =
  title :: string
  grid :: "int list list"
  size_pz :: nat
  seed_pz :: 'f

type_synonym PlayerGrid = "CellState list list"

section \<open>Line evaluator (App.tsx)\<close>

text \<open>The read \<^verbatim>\<open>g[r][c]\<close>.\<close>

definition cell_at :: "'a list list \<Rightarrow> nat \<Rightarrow> nat \<Rightarrow> error + 'a option" where
  "cell_at g r c =
     (if r < length g
      then Inr (if c < length (g ! r) then Some (g ! r ! c) else None)
      else Inl TypeError)"

text \<open>
  The two tests every evaluator loop makes on a pair of cells:
  \<^verbatim>\<open>target === 1 && current !== CellState.FILLED\<close> and
  \<^verbatim>\<open>target === 0 && current === CellState.FILLED\<close>. Both have the
  same consequence in each loop, so they are one predicate.
\<close>

definition mismatch :: "int option \<Rightarrow> CellState option \<Rightarrow> bool" where
  "mismatch target current =
     (if target = Some 1 \<and> current \<noteq> Some FILLED then True
      else if target = Some 0 \<and> current = Some FILLED then True
      else False)"

text \<open>
  The win check of the \<^verbatim>\<open>useEffect\<close>: the inner loop over the
  columns of row \<open>r\<close>. A mismatch sets
  \<^verbatim>\<open>isWin = false\<close> and breaks out of the inner loop only.
\<close>

function win_cols :: "'f PuzzleData \<Rightarrow> PlayerGrid \<Rightarrow> nat \<Rightarrow> nat \<Rightarrow> bool \<Rightarrow> error + bool" where
  "win_cols p pg r c isWin =
     (if c < size_pz p then
        (case cell_at (grid p) r c of
           Inl e \<Rightarrow> Inl e
         | Inr target \<Rightarrow>
            (case cell_at pg r c of
               Inl e \<Rightarrow> Inl e
             | Inr current \<Rightarrow>
                 if mismatch target current then Inr False
                 else win_cols p pg r (c + 1) isWin))
      else Inr isWin)"
  by pat_completeness auto
termination
  by (relation "measure (\<lambda>(p, pg, r, c, isWin). size_pz p - c)") auto

declare win_cols.simps [simp del]

text \<open>The outer loop over the rows; it goes on after a break of the inner loop.\<close>

function win_rows :: "'f PuzzleData \<Rightarrow> PlayerGrid \<Rightarrow> nat \<Rightarrow> bool \<Rightarrow> error + bool" where
  "win_rows p pg r isWin =
     (if r < size_pz p then
        (case win_cols p pg r 0 isWin of
           Inl e \<Rightarrow> Inl e
         | Inr w \<Rightarrow> win_rows p pg (r + 1) w)
      else Inr isWin)"
  by pat_completeness auto
termination
  by (relation "measure (\<lambda>(p, pg, r, isWin). size_pz p - r)") auto

declare win_rows.simps [simp del]

text \<open>
  The value of \<^verbatim>\<open>isWin\<close> after the loops. The effect runs them
  only while the game status is \<^verbatim>\<open>'playing'\<close> and a puzzle is
  present.
\<close>

definition isWin :: "'f PuzzleData \<Rightarrow> PlayerGrid \<Rightarrow> error + bool" where
  "isWin p pg = win_rows p pg 0 True"

text \<open>\<^verbatim>\<open>isRowComplete\<close>: the loop returns false at the first mismatch.\<close>

function row_loop :: "'f PuzzleData \<Rightarrow> PlayerGrid \<Rightarrow> nat \<Rightarrow> nat \<Rightarrow> error + bool" where
  "row_loop p pg rowIndex c =
     (if c < size_pz p then
        (case cell_at (grid p) rowIndex c of
           Inl e \<Rightarrow> Inl e
         | Inr target \<Rightarrow>
            (case cell_at pg rowIndex c of
               Inl e \<Rightarrow> Inl e
             | Inr current \<Rightarrow>
                 if mismatch target current then Inr False
                 else row_loop p pg rowIndex (c + 1)))
      else Inr True)"
  by pat_completeness auto
termination
  by (relation "measure (\<lambda>(p, pg, rowIndex, c). size_pz p - c)") auto

declare row_loop.simps [simp del]

definition isRowComplete :: "'f PuzzleData option \<Rightarrow> PlayerGrid \<Rightarrow> nat \<Rightarrow> error + bool" where
  "isRowComplete puzzle pg rowIndex =
     (case puzzle of
        None \<Rightarrow> Inr False
      | Some p \<Rightarrow> if length pg = 0 then Inr False else row_loop p pg rowIndex 0)"

text \<open>\<^verbatim>\<open>isColComplete\<close>.\<close>

function col_loop :: "'f PuzzleData \<Rightarrow> PlayerGrid \<Rightarrow> nat \<Rightarrow> nat \<Rightarrow> error + bool" where
  "col_loop p pg colIndex r =
     (if r < size_pz p then
        (case cell_at (grid p) r colIndex of
           Inl e \<Rightarrow> Inl e
         | Inr target \<Rightarrow>
            (case cell_at pg r colIndex of
               Inl e \<Rightarrow> Inl e
             | Inr current \<Rightarrow>
                 if mismatch target current then Inr False
                 else col_loop p pg colIndex (r + 1)))
      else Inr True)"
  by pat_completeness auto
termination
  by (relation "measure (\<lambda>(p, pg, colIndex, r). size_pz p - r)") auto

declare col_loop.simps [simp del]

definition isColComplete :: "'f PuzzleData option \<Rightarrow> PlayerGrid \<Rightarrow> nat \<Rightarrow> error + bool" where
  "isColComplete puzzle pg colIndex =
     (case puzzle of
        None \<Rightarrow> Inr False
      | Some p \<Rightarrow> if length pg = 0 then Inr False else col_loop p pg colIndex 0)"

section \<open>JavaScript numbers\<close>

text \<open>
  The generator computes with IEEE doubles and with \<^verbatim>\<open>Math.sin\<close>,
  whose result the language leaves to the implementation. Nothing below depends on what
  these operations return: the type of numbers is a parameter \<open>'f\<close> and the
  operations the code uses are the fields of a record that every function takes. A
  theorem stated for an arbitrary \<open>ar\<close> therefore holds for the doubles of
  any engine.
\<close>

record 'f arith =
  num_lit :: "real \<Rightarrow> 'f"
  num_add :: "'f \<Rightarrow> 'f \<Rightarrow> 'f"
  num_sub :: "'f \<Rightarrow> 'f \<Rightarrow> 'f"
  num_mul :: "'f \<Rightarrow> 'f \<Rightarrow> 'f"
  num_less :: "'f \<Rightarrow> 'f \<Rightarrow> bool"
  Math_sin :: "'f \<Rightarrow> 'f"
  Math_floor :: "'f \<Rightarrow> 'f"
  num_str :: "'f \<Rightarrow> string"

text \<open>
  \<open>num_lit r\<close> is the number a literal or an integer \<open>r\<close>
  denotes, \<open>num_less\<close> is \<^verbatim>\<open><\<close> (and
  \<^verbatim>\<open>a > b\<close> is \<open>num_less b a\<close>),
  \<open>num_str\<close> is the conversion a template literal applies.
\<close>

text \<open>Decimal digits of a natural number, for the instance below.\<close>

fun dec_string :: "nat \<Rightarrow> string" where
  "dec_string n =
     (if n < 10 then [char_of (48 + n)]
      else dec_string (n div 10) @ [char_of (48 + n mod 10)])"

declare dec_string.simps [simp del]

text \<open>
  The instance in which numbers are the reals and every operation is exact. It is used
  to run the theorems at concrete inputs.
\<close>

definition real_arith :: "real arith" where
  "real_arith =
     \<lparr>num_lit = (\<lambda>r. r),
      num_add = (\<lambda>a b. a + b),
      num_sub = (\<lambda>a b. a - b),
      num_mul = (\<lambda>a b. a * b),
      num_less = (\<lambda>a b. a < b),
      Math_sin = sin,
      Math_floor = (\<lambda>a. of_int \<lfloor>a\<rfloor>),
      num_str = (\<lambda>a. dec_string (nat \<lfloor>a\<rfloor>))\<rparr>"

section \<open>Difficulty bands (gameConfig.ts)\<close>

record 'f DifficultySettings =
  label :: string
  minDensity :: 'f
  maxDensity :: 'f

datatype DifficultyLevel = VERY_EASY | EASY | MEDIUM | HARD | VERY_HARD

fun DIFFICULTY_CONFIG :: "'f arith \<Rightarrow> DifficultyLevel \<Rightarrow> 'f DifficultySettings" where
  "DIFFICULTY_CONFIG ar VERY_EASY =
     \<lparr>label = ''Very Easy (90-99%)'', minDensity = num_lit ar 0.90, maxDensity = num_lit ar 0.99\<rparr>"
| "DIFFICULTY_CONFIG ar EASY =
     \<lparr>label = ''Easy (70-90%)'', minDensity = num_lit ar 0.70, maxDensity = num_lit ar 0.90\<rparr>"
| "DIFFICULTY_CONFIG ar MEDIUM =
     \<lparr>label = ''Medium (50-70%)'', minDensity = num_lit ar 0.50, maxDensity = num_lit ar 0.70\<rparr>"
| "DIFFICULTY_CONFIG ar HARD =
     \<lparr>label = ''Hard (30-50%)'', minDensity = num_lit ar 0.30, maxDensity = num_lit ar 0.50\<rparr>"
| "DIFFICULTY_CONFIG ar VERY_HARD =
     \<lparr>label = ''Very Hard (10-30%)'', minDensity = num_lit ar 0.10, maxDensity = num_lit ar 0.30\<rparr>"

section \<open>Seeded random numbers (class Random)\<close>

record 'f Random =
  seed :: 'f

text \<open>
  \<^verbatim>\<open>next()\<close>:
  \<^verbatim>\<open>const x = Math.sin(this.seed++) * 10000; return x - Math.floor(x)\<close>.
  The post-increment reads the old counter and stores the counter plus one.
\<close>

definition Random_next :: "'f arith \<Rightarrow> 'f Random \<Rightarrow> 'f \<times> 'f Random" where
  "Random_next ar rng =
     (let x = num_mul ar (Math_sin ar (seed rng)) (num_lit ar 10000)
      in (num_sub ar x (Math_floor ar x),
          rng\<lparr>seed := num_add ar (seed rng) (num_lit ar 1)\<rparr>))"

text \<open>\<^verbatim>\<open>range(min, max)\<close>: \<^verbatim>\<open>Math.floor(this.next() * (max - min + 1)) + min\<close>.\<close>

definition Random_range :: "'f arith \<Rightarrow> 'f Random \<Rightarrow> 'f \<Rightarrow> 'f \<Rightarrow> 'f \<times> 'f Random" where
  "Random_range ar rng mn mx =
     (let (u, rng') = Random_next ar rng
      in (num_add ar
            (Math_floor ar (num_mul ar u (num_add ar (num_sub ar mx mn) (num_lit ar 1)))) mn,
          rng'))"

text \<open>\<^verbatim>\<open>bool(chance)\<close>: \<^verbatim>\<open>this.next() < chance\<close>.\<close>

definition Random_bool :: "'f arith \<Rightarrow> 'f Random \<Rightarrow> 'f \<Rightarrow> bool \<times> 'f Random" where
  "Random_bool ar rng chance =
     (let (u, rng') = Random_next ar rng in (num_less ar u chance, rng'))"

section \<open>Puzzle generator (generatePuzzle)\<close>

type_synonym cells = "int list list"

text \<open>\<^verbatim>\<open>Array(size).fill(0).map(() => Array(size).fill(0))\<close>.\<close>

definition empty_cells :: "nat \<Rightarrow> cells" where
  "empty_cells sz = replicate sz (replicate sz 0)"

text \<open>
  The density draw:
  \<^verbatim>\<open>difficulty.minDensity + (rng.next() * (difficulty.maxDensity - difficulty.minDensity))\<close>.
\<close>

definition draw_density ::
  "'f arith \<Rightarrow> 'f Random \<Rightarrow> 'f DifficultySettings \<Rightarrow> 'f \<times> 'f Random" where
  "draw_density ar rng difficulty =
     (let (u, rng') = Random_next ar rng
      in (num_add ar (minDensity difficulty)
            (num_mul ar u (num_sub ar (maxDensity difficulty) (minDensity difficulty))),
          rng'))"

text \<open>
  Step 1, the noise. The body of the inner loop draws one boolean and writes the cell;
  the loops run \<open>y\<close> and \<open>x\<close> over \<open>0 .. size - 1\<close>,
  rows outside. The writes are in range: the grid was allocated with \<open>size\<close>
  rows of \<open>size\<close> cells.
\<close>

definition noise_cell ::
  "'f arith \<Rightarrow> 'f \<Rightarrow> nat \<Rightarrow> nat \<Rightarrow> cells \<times> 'f Random \<Rightarrow> cells \<times> 'f Random" where
  "noise_cell ar targetDensity y x st =
     (case st of (g, rng) \<Rightarrow>
        (let (b, rng') = Random_bool ar rng targetDensity;
             val = (if b then 1 else 0)
         in (g[y := (g ! y)[x := val]], rng')))"

definition noise_pass ::
  "'f arith \<Rightarrow> 'f \<Rightarrow> nat \<Rightarrow> cells \<times> 'f Random \<Rightarrow> cells \<times> 'f Random" where
  "noise_pass ar targetDensity sz st =
     fold (\<lambda>y. fold (noise_cell ar targetDensity y) [0..<sz]) [0..<sz] st"

text \<open>
  Step 2, the smoothing. \<open>count_neighbors\<close> is the pair of loops over
  \<open>dy\<close> and \<open>dx\<close> from -1 to 1 with the
  \<^verbatim>\<open>continue\<close> at the centre and the bounds test on
  \<open>ny = y + dy\<close>, \<open>nx = x + dx\<close>.
\<close>

definition count_neighbors :: "nat \<Rightarrow> cells \<Rightarrow> nat \<Rightarrow> nat \<Rightarrow> nat" where
  "count_neighbors sz g y x =
     fold (\<lambda>dy. fold (\<lambda>dx neighbors.
             if dy = 0 \<and> dx = 0 then neighbors
             else
               (let ny = int y + dy; nx = int x + dx
                in if ny \<ge> 0 \<and> ny < int sz \<and> nx \<ge> 0 \<and> nx < int sz
                   then (if g ! nat ny ! nat nx = 1 then neighbors + 1 else neighbors)
                   else neighbors))
           [-1, 0, 1])
       [-1, 0, 1] 0"

text \<open>The rule for one cell, written into \<open>newGrid\<close> from the counts in \<open>g\<close>.\<close>

definition smooth_cell :: "nat \<Rightarrow> cells \<Rightarrow> nat \<Rightarrow> nat \<Rightarrow> cells \<Rightarrow> cells" where
  "smooth_cell sz g y x newGrid =
     (let neighbors = count_neighbors sz g y x
      in if g ! y ! x = 1
         then newGrid[y := (newGrid ! y)[x := (if neighbors \<ge> 3 then 1 else 0)]]
         else newGrid[y := (newGrid ! y)[x := (if neighbors \<ge> 4 then 1 else 0)]])"

text \<open>The loops that copy \<open>newGrid\<close> back into \<open>grid\<close> cell by cell.\<close>

definition copy_back :: "nat \<Rightarrow> cells \<Rightarrow> cells \<Rightarrow> cells" where
  "copy_back sz newGrid g =
     fold (\<lambda>y. fold (\<lambda>x g'. g'[y := (g' ! y)[x := newGrid ! y ! x]]) [0..<sz]) [0..<sz] g"

text \<open>
  One iteration: \<^verbatim>\<open>newGrid = grid.map(row => [...row])\<close>, the
  loops over the cells, the copy back.
\<close>

definition smooth_iteration :: "nat \<Rightarrow> cells \<Rightarrow> cells" where
  "smooth_iteration sz g =
     (let newGrid = map (\<lambda>row. row) g;
          newGrid' = fold (\<lambda>y. fold (\<lambda>x. smooth_cell sz g y x) [0..<sz]) [0..<sz] newGrid
      in copy_back sz newGrid' g)"

definition iterations :: nat where
  "iterations = 2"

definition smoothing :: "nat \<Rightarrow> cells \<Rightarrow> cells" where
  "smoothing sz g = fold (\<lambda>i. smooth_iteration sz) [0..<iterations] g"

text \<open>The guard of step 2: \<^verbatim>\<open>targetDensity > 0.3 && targetDensity < 0.8\<close>.\<close>

definition smoothing_applies :: "'f arith \<Rightarrow> 'f \<Rightarrow> bool" where
  "smoothing_applies ar targetDensity =
     (num_less ar (num_lit ar 0.3) targetDensity \<and> num_less ar targetDensity (num_lit ar 0.8))"

text \<open>
  Step 3, the safety check. \<^verbatim>\<open>filledCount\<close> is summed once,
  before either write. A write \<^verbatim>\<open>grid[y][x] = v\<close> throws a
  TypeError when the grid has no row \<open>y\<close>.
\<close>

definition filled_count :: "cells \<Rightarrow> int" where
  "filled_count g = fold (\<lambda>row filledCount. fold (\<lambda>cell fc. fc + cell) row filledCount) g 0"

definition set_cell :: "cells \<Rightarrow> nat \<Rightarrow> nat \<Rightarrow> int \<Rightarrow> error + cells" where
  "set_cell g y x v =
     (if y < length g then Inr (g[y := (g ! y)[x := v]]) else Inl TypeError)"

definition safety_check :: "nat \<Rightarrow> cells \<Rightarrow> error + cells" where
  "safety_check sz g =
     (let filledCount = filled_count g
      in case (if filledCount = 0 then set_cell g (sz div 2) (sz div 2) 1 else Inr g) of
           Inl e \<Rightarrow> Inl e
         | Inr g1 \<Rightarrow>
             if filledCount = int (sz * sz) then set_cell g1 0 0 0 else Inr g1)"

text \<open>
  The stages of \<^verbatim>\<open>generatePuzzle\<close>, each the state of the local
  \<^verbatim>\<open>grid\<close> at one point of the function: after the noise, after
  the conditional smoothing, and the returned bundle. The 50 ms delay before the
  computation has no effect on the result and is not modelled.
\<close>

definition target_and_noise ::
  "'f arith \<Rightarrow> 'f \<Rightarrow> nat \<Rightarrow> 'f DifficultySettings \<Rightarrow> 'f \<times> cells" where
  "target_and_noise ar seed0 sz difficulty =
     (let rng = \<lparr>seed = seed0\<rparr>;
          g = empty_cells sz;
          (targetDensity, rng1) = draw_density ar rng difficulty;
          (g', rng2) = noise_pass ar targetDensity sz (g, rng1)
      in (targetDensity, g'))"

definition targetDensity_of :: "'f arith \<Rightarrow> 'f \<Rightarrow> nat \<Rightarrow> 'f DifficultySettings \<Rightarrow> 'f" where
  "targetDensity_of ar seed0 sz difficulty = fst (target_and_noise ar seed0 sz difficulty)"

definition noise_grid :: "'f arith \<Rightarrow> 'f \<Rightarrow> nat \<Rightarrow> 'f DifficultySettings \<Rightarrow> cells" where
  "noise_grid ar seed0 sz difficulty = snd (target_and_noise ar seed0 sz difficulty)"

definition smoothed_grid :: "'f arith \<Rightarrow> 'f \<Rightarrow> nat \<Rightarrow> 'f DifficultySettings \<Rightarrow> cells" where
  "smoothed_grid ar seed0 sz difficulty =
     (case target_and_noise ar seed0 sz difficulty of
        (targetDensity, g) \<Rightarrow>
          if smoothing_applies ar targetDensity then smoothing sz g else g)"

definition generatePuzzle ::
  "'f arith \<Rightarrow> 'f \<Rightarrow> nat \<Rightarrow> 'f DifficultySettings \<Rightarrow> error + 'f PuzzleData" where
  "generatePuzzle ar seed0 sz difficulty =
     (case safety_check sz (smoothed_grid ar seed0 sz difficulty) of
        Inl e \<Rightarrow> Inl e
      | Inr g \<Rightarrow>
          Inr \<lparr>title = ''Pattern #'' @ num_str ar seed0, grid = g, size_pz = sz,
               seed_pz = seed0\<rparr>)"

section \<open>The generator as a call in the running page\<close>

text \<open>
  Whether two calls of \<^verbatim>\<open>generatePuzzle\<close> can differ depends on what a call reads
  besides its arguments. The state a call finds when its 50 ms timer fires is written out
  here: the \<^verbatim>\<open>Random\<close> objects that exist (each with its mutable counter
  \<^verbatim>\<open>seed\<close>), the address the next \<^verbatim>\<open>new\<close> returns, and the values
  \<^verbatim>\<open>Math.random()\<close> is going to return. Other code runs before the timer fires and
  between two calls, so this state is arbitrary.
\<close>

record 'f world =
  objects :: "nat \<Rightarrow> 'f Random"
  next_free :: nat
  pending_random :: "'f list"

text \<open>\<^verbatim>\<open>new Random(seed)\<close>: a new object, its counter set by the constructor.\<close>

definition new_Random :: "'f \<Rightarrow> 'f world \<Rightarrow> nat \<times> 'f world" where
  "new_Random seed0 w =
     (let this = next_free w
      in (this, w\<lparr>objects := (objects w)(this := \<lparr>seed = seed0\<rparr>), next_free := Suc this\<rparr>))"

text \<open>
  \<^verbatim>\<open>next()\<close> and \<^verbatim>\<open>bool(chance)\<close> called on the object at address
  \<open>this\<close>: the counter is read from the object and the incremented counter is stored
  into it.
\<close>

definition Random_next_at :: "'f arith \<Rightarrow> nat \<Rightarrow> 'f world \<Rightarrow> 'f \<times> 'f world" where
  "Random_next_at ar this w =
     (let (u, rng') = Random_next ar (objects w this)
      in (u, w\<lparr>objects := (objects w)(this := rng')\<rparr>))"

definition Random_bool_at :: "'f arith \<Rightarrow> nat \<Rightarrow> 'f \<Rightarrow> 'f world \<Rightarrow> bool \<times> 'f world" where
  "Random_bool_at ar this chance w =
     (let (u, w') = Random_next_at ar this w in (num_less ar u chance, w'))"

text \<open>The body of the noise loops, drawing from the object \<open>rng\<close> refers to.\<close>

definition noise_cell_at ::
  "'f arith \<Rightarrow> nat \<Rightarrow> 'f \<Rightarrow> nat \<Rightarrow> nat \<Rightarrow> cells \<times> 'f world \<Rightarrow> cells \<times> 'f world" where
  "noise_cell_at ar rng targetDensity y x st =
     (case st of (g, w) \<Rightarrow>
        (let (b, w') = Random_bool_at ar rng targetDensity w;
             val = (if b then 1 else 0)
         in (g[y := (g ! y)[x := val]], w')))"

text \<open>
  \<^verbatim>\<open>generatePuzzle\<close> from the moment its timer fires, statement by statement:
  \<^verbatim>\<open>const rng = new Random(seed)\<close>, the new grid, the density draw, the noise loops,
  the conditional smoothing, the safety check and the returned bundle. The grid is a new
  array that no other code holds, so it is a value here as above. The call returns its
  result and the state it leaves behind.
\<close>

definition generatePuzzle_call ::
  "'f arith \<Rightarrow> 'f world \<Rightarrow> 'f \<Rightarrow> nat \<Rightarrow> 'f DifficultySettings \<Rightarrow>
   (error + 'f PuzzleData) \<times> 'f world" where
  "generatePuzzle_call ar w seed0 sz difficulty =
     (let (rng, w1) = new_Random seed0 w;
          g = empty_cells sz;
          (u, w2) = Random_next_at ar rng w1;
          targetDensity =
            num_add ar (minDensity difficulty)
              (num_mul ar u (num_sub ar (maxDensity difficulty) (minDensity difficulty)));
          (g1, w3) =
            fold (\<lambda>y. fold (noise_cell_at ar rng targetDensity y) [0..<sz]) [0..<sz] (g, w2);
          g2 = (if smoothing_applies ar targetDensity then smoothing sz g1 else g1)
      in (case safety_check sz g2 of
            Inl e \<Rightarrow> Inl e
          | Inr g3 \<Rightarrow>
              Inr \<lparr>title = ''Pattern #'' @ num_str ar seed0, grid = g3, size_pz = sz,
                   seed_pz = seed0\<rparr>,
          w3))"

section \<open>Seed derivation (App.tsx)\<close>

text \<open>
  A JavaScript string is a sequence of 16-bit code units;
  \<^verbatim>\<open>charCodeAt\<close> reads one as a number between 0 and 65535.
\<close>

type_synonym jsstring = "16 word list"

text \<open>
  \<^verbatim>\<open>ToInt32\<close>, the conversion that
  \<^verbatim>\<open>hash |= 0\<close> and the operand of \<^verbatim>\<open><<\<close>
  go through: the integer wraps around into \<open>[-2^31, 2^31)\<close>.
\<close>

definition ToInt32 :: "int \<Rightarrow> int" where
  "ToInt32 n = (n + 2 ^ 31) mod 2 ^ 32 - 2 ^ 31"

text \<open>
  The body of the loop of \<^verbatim>\<open>stringToSeed\<close>:
  \<^verbatim>\<open>hash = ((hash << 5) - hash) + char; hash |= 0\<close>. The shift
  works on 32-bit integers; the subtraction and the addition are exact, their operands
  being far below \<open>2^53\<close>.
\<close>

definition hash_step :: "16 word \<Rightarrow> int \<Rightarrow> int" where
  "hash_step c hash =
     (let char = uint c;
          hash' = (ToInt32 (ToInt32 hash * 2 ^ 5) - hash) + char
      in ToInt32 hash')"

text \<open>\<^verbatim>\<open>stringToSeed\<close>: 0 for the empty string, else \<^verbatim>\<open>Math.abs\<close> of the hash.\<close>

definition stringToSeed :: "jsstring \<Rightarrow> int" where
  "stringToSeed str = (if length str = 0 then 0 else \<bar>fold hash_step str 0\<bar>)"

text \<open>
  The code units \<^verbatim>\<open>String.prototype.trim\<close> strips from both ends
  (white space and line terminators of the language).
\<close>

definition is_whitespace :: "16 word \<Rightarrow> bool" where
  "is_whitespace c =
     (c \<in> set [0x0009, 0x000A, 0x000B, 0x000C, 0x000D, 0x0020, 0x00A0, 0x1680,
               0x2000, 0x2001, 0x2002, 0x2003, 0x2004, 0x2005, 0x2006, 0x2007, 0x2008, 0x2009,
               0x200A, 0x2028, 0x2029, 0x202F, 0x205F, 0x3000, 0xFEFF])"

definition trim :: "jsstring \<Rightarrow> jsstring" where
  "trim s = rev (dropWhile is_whitespace (rev (dropWhile is_whitespace s)))"

text \<open>The test \<^verbatim>\<open>/^\d+$/.test(seedVal)\<close>: one or more characters, all of them 0 to 9.\<close>

definition is_digit :: "16 word \<Rightarrow> bool" where
  "is_digit c = (0x30 \<le> c \<and> c \<le> 0x39)"

definition all_digits :: "jsstring \<Rightarrow> bool" where
  "all_digits s = (s \<noteq> [] \<and> list_all is_digit s)"

text \<open>
  \<^verbatim>\<open>parseInt(seedVal, 10)\<close> on a string of digits, the only
  strings it is called on: the number whose decimal notation the string is.
\<close>

definition decimal_value :: "jsstring \<Rightarrow> nat" where
  "decimal_value s = foldl (\<lambda>n c. 10 * n + (unat c - 48)) 0 s"

definition parseInt_digits :: "'f arith \<Rightarrow> jsstring \<Rightarrow> 'f" where
  "parseInt_digits ar s = num_lit ar (real (decimal_value s))"

text \<open>
  The choice of \<^verbatim>\<open>finalSeed\<close> in
  \<^verbatim>\<open>startNewGame\<close>. \<open>seedVal\<close> is the optional
  argument and \<open>random\<close> is the value
  \<^verbatim>\<open>Math.random()\<close> returns when it is called.
\<close>

definition finalSeed :: "'f arith \<Rightarrow> 'f \<Rightarrow> jsstring option \<Rightarrow> 'f" where
  "finalSeed ar random seedVal =
     (case seedVal of
        None \<Rightarrow> Math_floor ar (num_mul ar random (num_lit ar 2000000000))
      | Some sv \<Rightarrow>
          if sv \<noteq> [] \<and> length (trim sv) > 0 then
            (if all_digits sv then parseInt_digits ar sv
             else num_lit ar (real_of_int (stringToSeed sv)))
          else Math_floor ar (num_mul ar random (num_lit ar 2000000000)))"

section \<open>Notions used by the statements about the evaluator\<close>

text \<open>A grid of \<open>n\<close> rows of \<open>n\<close> cells.\<close>

definition rows_of_length :: "nat \<Rightarrow> 'a list list \<Rightarrow> bool" where
  "rows_of_length n g = (length g = n \<and> list_all (\<lambda>row. length row = n) g)"

text \<open>The solution grid and the player grid both have the dimensions \<^verbatim>\<open>puzzle.size\<close>.\<close>

definition equal_dimensions :: "'f PuzzleData \<Rightarrow> PlayerGrid \<Rightarrow> bool" where
  "equal_dimensions p pg = (rows_of_length (size_pz p) (grid p) \<and> rows_of_length (size_pz p) pg)"

text \<open>Every cell of a solution grid is 0 or 1.\<close>

definition binary_cells :: "int list list \<Rightarrow> bool" where
  "binary_cells g = list_all (list_all (\<lambda>v. v = 0 \<or> v = 1)) g"

text \<open>The cell match rule, in the words of the specification.\<close>

definition cell_matches :: "int \<Rightarrow> CellState \<Rightarrow> bool" where
  "cell_matches solution player =
     ((solution = 1 \<and> player = FILLED) \<or> (solution = 0 \<and> player \<noteq> FILLED))"

text \<open>Every CROSSED cell of the player grid replaced by EMPTY.\<close>

definition replace_crossed :: "PlayerGrid \<Rightarrow> PlayerGrid" where
  "replace_crossed pg = map (map (\<lambda>s. if s = CROSSED then EMPTY else s)) pg"

text \<open>Every EMPTY cell of the player grid replaced by CROSSED.\<close>

definition replace_empty :: "PlayerGrid \<Rightarrow> PlayerGrid" where
  "replace_empty pg = map (map (\<lambda>s. if s = EMPTY then CROSSED else s)) pg"

text \<open>A replacement of cell states that neither creates nor removes a FILLED cell.\<close>

definition keeps_filled :: "(CellState \<Rightarrow> CellState) \<Rightarrow> bool" where
  "keeps_filled f = (f FILLED = FILLED \<and> f EMPTY \<noteq> FILLED \<and> f CROSSED \<noteq> FILLED)"

text \<open>The example of the specification: a 2 by 2 solution and a player grid that solves it.\<close>

definition example_puzzle :: "real PuzzleData" where
  "example_puzzle = \<lparr>title = ''Pattern #42'', grid = [[1, 0], [0, 1]], size_pz = 2, seed_pz = 42\<rparr>"

definition example_player :: PlayerGrid where
  "example_player = [[FILLED, EMPTY], [CROSSED, FILLED]]"

section \<open>Notions used by the statements about the generator\<close>

text \<open>
  Some cell of the grid is filled; some cell of the grid is empty.
\<close>

definition has_filled :: "cells \<Rightarrow> bool" where
  "has_filled g = list_ex (list_ex (\<lambda>cell. cell = 1)) g"

definition has_empty :: "cells \<Rightarrow> bool" where
  "has_empty g = list_ex (list_ex (\<lambda>cell. cell = 0)) g"

text \<open>
  A grid of the generator: \<open>sz\<close> rows of \<open>sz\<close> cells, each 0 or 1.
\<close>

definition grid_ok :: "nat \<Rightarrow> cells \<Rightarrow> bool" where
  "grid_ok sz g = (rows_of_length sz g \<and> binary_cells g)"

text \<open>
  The smoothing step in the words of the specification. The Moore neighbours of cell
  \<open>(y, x)\<close> are the cells of the grid other than \<open>(y, x)\<close> whose
  row and column both differ from it by at most one; cells outside the grid do not
  exist, so they do not count. \<open>filled_neighbors\<close> counts the neighbours
  that are filled in the given (pre-iteration) grid, \<open>smooth_rule\<close> is the
  update rule (a filled cell stays filled iff it has at least 3 filled neighbours, an
  empty cell becomes filled iff it has at least 4), and \<open>smooth_spec\<close>
  computes every cell of a fresh grid from the given one.
\<close>

definition moore_neighbors :: "nat \<Rightarrow> nat \<Rightarrow> nat \<Rightarrow> (nat \<times> nat) list" where
  "moore_neighbors sz y x =
     filter (\<lambda>(ny, nx). ny \<le> y + 1 \<and> y \<le> ny + 1 \<and> nx \<le> x + 1 \<and> x \<le> nx + 1 \<and> (ny, nx) \<noteq> (y, x))
       (List.product [0..<sz] [0..<sz])"

definition filled_neighbors :: "nat \<Rightarrow> cells \<Rightarrow> nat \<Rightarrow> nat \<Rightarrow> nat" where
  "filled_neighbors sz g y x =
     length (filter (\<lambda>(ny, nx). g ! ny ! nx = 1) (moore_neighbors sz y x))"

definition smooth_rule :: "int \<Rightarrow> nat \<Rightarrow> int" where
  "smooth_rule cell filled =
     (if cell = 1 then (if filled \<ge> 3 then 1 else 0) else (if filled \<ge> 4 then 1 else 0))"

definition smooth_spec :: "nat \<Rightarrow> cells \<Rightarrow> cells" where
  "smooth_spec sz g =
     map (\<lambda>y. map (\<lambda>x. smooth_rule (g ! y ! x) (filled_neighbors sz g y x)) [0..<sz]) [0..<sz]"

text \<open>
  Auxiliary notions for the proof that the loops over \<open>dy\<close> and
  \<open>dx\<close> count the filled Moore neighbours: the test one pass of the loop
  body makes, the offsets that stay inside the grid, and the cell an offset leads to.
\<close>

definition offset_hits :: "nat \<Rightarrow> cells \<Rightarrow> nat \<Rightarrow> nat \<Rightarrow> int \<Rightarrow> int \<Rightarrow> bool" where
  "offset_hits sz g y x dy dx =
     (\<not> (dy = 0 \<and> dx = 0) \<and> int y + dy \<ge> 0 \<and> int y + dy < int sz \<and>
      int x + dx \<ge> 0 \<and> int x + dx < int sz \<and> g ! nat (int y + dy) ! nat (int x + dx) = 1)"

definition offset_in_bounds :: "nat \<Rightarrow> nat \<Rightarrow> nat \<Rightarrow> int \<times> int \<Rightarrow> bool" where
  "offset_in_bounds sz y x = (\<lambda>(dy, dx).
     \<not> (dy = 0 \<and> dx = 0) \<and> int y + dy \<ge> 0 \<and> int y + dy < int sz \<and>
     int x + dx \<ge> 0 \<and> int x + dx < int sz)"

definition offset_cell :: "nat \<Rightarrow> nat \<Rightarrow> int \<times> int \<Rightarrow> nat \<times> nat" where
  "offset_cell y x = (\<lambda>(dy, dx). (nat (int y + dy), nat (int x + dx)))"

text \<open>
  The grids the safety check can return: the centre cell forced to 1, cell
  \<open>(0, 0)\<close> forced to 0, and the choice between them and the unchanged grid.
  \<open>same_except sz g h cell\<close> says that \<open>h\<close> agrees with
  \<open>g\<close> on every cell of the \<open>sz\<close> by \<open>sz\<close> grid but
  \<open>cell\<close>.
\<close>

definition center_filled :: "nat \<Rightarrow> cells \<Rightarrow> cells" where
  "center_filled sz g = g[sz div 2 := (g ! (sz div 2))[sz div 2 := 1]]"

definition corner_emptied :: "cells \<Rightarrow> cells" where
  "corner_emptied g = g[0 := (g ! 0)[0 := 0]]"

definition corrected :: "nat \<Rightarrow> cells \<Rightarrow> cells" where
  "corrected sz g =
     (if filled_count g = 0 then center_filled sz g
      else if filled_count g = int (sz * sz) then corner_emptied g
      else g)"

definition same_except :: "nat \<Rightarrow> cells \<Rightarrow> cells \<Rightarrow> nat \<times> nat \<Rightarrow> bool" where
  "same_except sz g h cell =
     (\<forall>y \<in> {..< sz}. \<forall>x \<in> {..< sz}. (y, x) \<noteq> cell \<longrightarrow> h ! y ! x = g ! y ! x)"

text \<open>
  A state of the page in which the object at \<open>this\<close> has the given counter, paired
  with a grid: the link between the loops that draw from an object and the loops that
  thread the counter.
\<close>

definition with_object :: "'f world \<Rightarrow> nat \<Rightarrow> cells \<times> 'f Random \<Rightarrow> cells \<times> 'f world" where
  "with_object w this st = (case st of (g, rng) \<Rightarrow> (g, w\<lparr>objects := (objects w)(this := rng)\<rparr>))"

text \<open>
  Two states of the page: one in which nothing has happened yet, and one in which three
  objects exist with their counters at 7 and \<^verbatim>\<open>Math.random()\<close> is about to
  return 0.25.
\<close>

definition fresh_page :: "real world" where
  "fresh_page = \<lparr>objects = (\<lambda>a. \<lparr>seed = 0\<rparr>), next_free = 0, pending_random = []\<rparr>"

definition used_page :: "real world" where
  "used_page = \<lparr>objects = (\<lambda>a. \<lparr>seed = 7\<rparr>), next_free = 3, pending_random = [0.25]\<rparr>"

section \<open>Notions used by the statements about the seed derivation\<close>

text \<open>
  The rolling hash in closed form: every character multiplies the accumulator by 31 and
  adds its code.
\<close>

definition polynomial_hash :: "jsstring \<Rightarrow> int" where
  "polynomial_hash str = foldl (\<lambda>h c. 31 * h + uint c) 0 str"

section \<open>Properties of the line evaluator\<close>

lemma cell_at_in_range:
  "rows_of_length n g \<Longrightarrow> r < n \<Longrightarrow> c < n \<Longrightarrow> cell_at g r c = Inr (Some (g ! r ! c))"
  by (simp add: rows_of_length_def cell_at_def list_all_length)

lemma all_from:
  "c < n \<Longrightarrow> (\<forall>c'. c \<le> c' \<and> c' < n \<longrightarrow> P c') = (P c \<and> (\<forall>c'. Suc c \<le> c' \<and> c' < n \<longrightarrow> P c'))"
  for c n :: nat
proof
  assume h: "c < n" "\<forall>c'. c \<le> c' \<and> c' < n \<longrightarrow> P c'"
  then show "P c \<and> (\<forall>c'. Suc c \<le> c' \<and> c' < n \<longrightarrow> P c')" by simp
next
  assume h: "c < n" "P c \<and> (\<forall>c'. Suc c \<le> c' \<and> c' < n \<longrightarrow> P c')"
  show "\<forall>c'. c \<le> c' \<and> c' < n \<longrightarrow> P c'"
  proof (intro allI impI)
    fix c' assume "c \<le> c' \<and> c' < n"
    then have "c' = c \<or> (Suc c \<le> c' \<and> c' < n)" by arith
    with h show "P c'" by blast
  qed
qed

lemma row_loop_char:
  assumes "equal_dimensions p pg" "r < size_pz p"
  shows "row_loop p pg r c =
         Inr (\<forall>c'. c \<le> c' \<and> c' < size_pz p \<longrightarrow> \<not> mismatch (Some (grid p ! r ! c')) (Some (pg ! r ! c')))"
  using assms
proof (induction p pg r c rule: row_loop.induct)
  case (1 p pg rowIndex c)
  show ?case
  proof (cases "c < size_pz p")
    case False
    then show ?thesis by (subst row_loop.simps) auto
  next
    case True
    have t: "cell_at (grid p) rowIndex c = Inr (Some (grid p ! rowIndex ! c))"
      using 1(2,3) True by (intro cell_at_in_range[of "size_pz p"]) (simp_all add: equal_dimensions_def)
    have u: "cell_at pg rowIndex c = Inr (Some (pg ! rowIndex ! c))"
      using 1(2,3) True by (intro cell_at_in_range[of "size_pz p"]) (simp_all add: equal_dimensions_def)
    show ?thesis
    proof (cases "mismatch (Some (grid p ! rowIndex ! c)) (Some (pg ! rowIndex ! c))")
      case True
      with \<open>c < size_pz p\<close> t u show ?thesis by (subst row_loop.simps) auto
    next
      case False
      have "row_loop p pg rowIndex c = row_loop p pg rowIndex (c + 1)"
        using \<open>c < size_pz p\<close> t u False by (subst row_loop.simps) simp
      also have "\<dots> = Inr (\<forall>c'. c + 1 \<le> c' \<and> c' < size_pz p \<longrightarrow> \<not> mismatch (Some (grid p ! rowIndex ! c')) (Some (pg ! rowIndex ! c')))"
        using 1 \<open>c < size_pz p\<close> t u False by simp
      also have "\<dots> = Inr (\<forall>c'. c \<le> c' \<and> c' < size_pz p \<longrightarrow> \<not> mismatch (Some (grid p ! rowIndex ! c')) (Some (pg ! rowIndex ! c')))"
        using False by (simp add: all_from[OF \<open>c < size_pz p\<close>])
      finally show ?thesis .
    qed
  qed
qed

lemma col_loop_char:
  assumes "equal_dimensions p pg" "c < size_pz p"
  shows "col_loop p pg c r =
         Inr (\<forall>r'. r \<le> r' \<and> r' < size_pz p \<longrightarrow> \<not> mismatch (Some (grid p ! r' ! c)) (Some (pg ! r' ! c)))"
  using assms
proof (induction p pg c r rule: col_loop.induct)
  case (1 p pg colIndex r)
  show ?case
  proof (cases "r < size_pz p")
    case False
    then show ?thesis by (subst col_loop.simps) auto
  next
    case True
    have t: "cell_at (grid p) r colIndex = Inr (Some (grid p ! r ! colIndex))"
      using 1(2,3) True by (intro cell_at_in_range[of "size_pz p"]) (simp_all add: equal_dimensions_def)
    have u: "cell_at pg r colIndex = Inr (Some (pg ! r ! colIndex))"
      using 1(2,3) True by (intro cell_at_in_range[of "size_pz p"]) (simp_all add: equal_dimensions_def)
    show ?thesis
    proof (cases "mismatch (Some (grid p ! r ! colIndex)) (Some (pg ! r ! colIndex))")
      case True
      with \<open>r < size_pz p\<close> t u show ?thesis by (subst col_loop.simps) auto
    next
      case False
      have "col_loop p pg colIndex r = col_loop p pg colIndex (r + 1)"
        using \<open>r < size_pz p\<close> t u False by (subst col_loop.simps) simp
      also have "\<dots> = Inr (\<forall>r'. r + 1 \<le> r' \<and> r' < size_pz p \<longrightarrow> \<not> mismatch (Some (grid p ! r' ! colIndex)) (Some (pg ! r' ! colIndex)))"
        using 1 \<open>r < size_pz p\<close> t u False by simp
      also have "\<dots> = Inr (\<forall>r'. r \<le> r' \<and> r' < size_pz p \<longrightarrow> \<not> mismatch (Some (grid p ! r' ! colIndex)) (Some (pg ! r' ! colIndex)))"
        using False by (simp add: all_from[OF \<open>r < size_pz p\<close>])
      finally show ?thesis .
    qed
  qed
qed

lemma win_cols_char:
  assumes "equal_dimensions p pg" "r < size_pz p"
  shows "win_cols p pg r c w =
         Inr (w \<and> (\<forall>c'. c \<le> c' \<and> c' < size_pz p \<longrightarrow> \<not> mismatch (Some (grid p ! r ! c')) (Some (pg ! r ! c'))))"
  using assms
proof (induction p pg r c w rule: win_cols.induct)
  case (1 p pg r c w)
  show ?case
  proof (cases "c < size_pz p")
    case False
    then show ?thesis by (subst win_cols.simps) auto
  next
    case True
    have t: "cell_at (grid p) r c = Inr (Some (grid p ! r ! c))"
      using 1(2,3) True by (intro cell_at_in_range[of "size_pz p"]) (simp_all add: equal_dimensions_def)
    have u: "cell_at pg r c = Inr (Some (pg ! r ! c))"
      using 1(2,3) True by (intro cell_at_in_range[of "size_pz p"]) (simp_all add: equal_dimensions_def)
    show ?thesis
    proof (cases "mismatch (Some (grid p ! r ! c)) (Some (pg ! r ! c))")
      case True
      with \<open>c < size_pz p\<close> t u show ?thesis by (subst win_cols.simps) auto
    next
      case False
      have "win_cols p pg r c w = win_cols p pg r (c + 1) w"
        using \<open>c < size_pz p\<close> t u False by (subst win_cols.simps) simp
      also have "\<dots> = Inr (w \<and> (\<forall>c'. c + 1 \<le> c' \<and> c' < size_pz p \<longrightarrow> \<not> mismatch (Some (grid p ! r ! c')) (Some (pg ! r ! c'))))"
        using 1 \<open>c < size_pz p\<close> t u False by simp
      also have "\<dots> = Inr (w \<and> (\<forall>c'. c \<le> c' \<and> c' < size_pz p \<longrightarrow> \<not> mismatch (Some (grid p ! r ! c')) (Some (pg ! r ! c'))))"
        using False by (simp add: all_from[OF \<open>c < size_pz p\<close>])
      finally show ?thesis .
    qed
  qed
qed

lemma win_rows_char:
  assumes "equal_dimensions p pg"
  shows "win_rows p pg r w =
         Inr (w \<and> (\<forall>r'. r \<le> r' \<and> r' < size_pz p \<longrightarrow>
                (\<forall>c'. c' < size_pz p \<longrightarrow>
                      \<not> mismatch (Some (grid p ! r' ! c')) (Some (pg ! r' ! c')))))"
  using assms
proof (induction p pg r w rule: win_rows.induct)
  case (1 p pg r w)
  let ?row = "\<lambda>r'. \<forall>c'. c' < size_pz p \<longrightarrow> \<not> mismatch (Some (grid p ! r' ! c')) (Some (pg ! r' ! c'))"
  show ?case
  proof (cases "r < size_pz p")
    case False
    then show ?thesis by (subst win_rows.simps) auto
  next
    case True
    have wc: "win_cols p pg r 0 w = Inr (w \<and> ?row r)"
      using win_cols_char[OF 1(2) True, of 0 w] by simp
    have "win_rows p pg r w = win_rows p pg (r + 1) (w \<and> ?row r)"
      using True wc by (subst win_rows.simps) simp
    also have "\<dots> = Inr ((w \<and> ?row r) \<and> (\<forall>r'. r + 1 \<le> r' \<and> r' < size_pz p \<longrightarrow> ?row r'))"
      using 1(1)[OF True wc 1(2)] .
    also have "\<dots> = Inr (w \<and> (\<forall>r'. r \<le> r' \<and> r' < size_pz p \<longrightarrow> ?row r'))"
      using all_from[OF True, of ?row] by auto
    finally show ?thesis .
  qed
qed

lemma isWin_char:
  assumes "equal_dimensions p pg"
  shows "isWin p pg = Inr (\<forall>r < size_pz p. \<forall>c < size_pz p. \<not> mismatch (Some (grid p ! r ! c)) (Some (pg ! r ! c)))"
  unfolding isWin_def using win_rows_char[OF assms, of 0 True] by simp

lemma isRowComplete_char:
  assumes "equal_dimensions p pg" "r < size_pz p"
  shows "isRowComplete (Some p) pg r = Inr (\<forall>c < size_pz p. \<not> mismatch (Some (grid p ! r ! c)) (Some (pg ! r ! c)))"
proof -
  have "length pg \<noteq> 0" using assms by (auto simp: equal_dimensions_def rows_of_length_def)
  then show ?thesis
    using row_loop_char[OF assms, of 0] by (simp add: isRowComplete_def)
qed

lemma isColComplete_char:
  assumes "equal_dimensions p pg" "c < size_pz p"
  shows "isColComplete (Some p) pg c = Inr (\<forall>r < size_pz p. \<not> mismatch (Some (grid p ! r ! c)) (Some (pg ! r ! c)))"
proof -
  have "length pg \<noteq> 0" using assms by (auto simp: equal_dimensions_def rows_of_length_def)
  then show ?thesis
    using col_loop_char[OF assms, of 0] by (simp add: isColComplete_def)
qed

lemma binary_cells_nth:
  "binary_cells g \<Longrightarrow> r < length g \<Longrightarrow> c < length (g ! r) \<Longrightarrow> g ! r ! c = 0 \<or> g ! r ! c = 1"
  by (simp add: binary_cells_def list_all_length)

lemma mismatch_binary:
  "s = 0 \<or> s = 1 \<Longrightarrow> mismatch (Some s) (Some pl) = (\<not> cell_matches s pl)"
  by (auto simp: mismatch_def cell_matches_def)

text \<open>
  C3: for a solution grid of 0/1 cells and a player grid of the same dimensions, the win
  check runs without an exception and its verdict is true exactly when every cell
  matches under the cell match rule: the solution cell is 1 and the player cell is
  FILLED, or the solution cell is 0 and the player cell is not FILLED.
\<close>

theorem win_iff_every_cell_matches:
  assumes "equal_dimensions p pg" and "binary_cells (grid p)"
  shows "isWin p pg =
         Inr (\<forall>r < size_pz p. \<forall>c < size_pz p. cell_matches (grid p ! r ! c) (pg ! r ! c))"
proof -
  have "mismatch (Some (grid p ! r ! c)) (Some (pg ! r ! c)) = (\<not> cell_matches (grid p ! r ! c) (pg ! r ! c))"
    if "r < size_pz p" "c < size_pz p" for r c
  proof -
    have "r < length (grid p)" "c < length (grid p ! r)"
      using assms(1) that by (auto simp: equal_dimensions_def rows_of_length_def list_all_length)
    then show ?thesis using binary_cells_nth[OF assms(2)] mismatch_binary by blast
  qed
  then show ?thesis by (simp add: isWin_char[OF assms(1)])
qed

text \<open>
  C4: for a solution grid and a player grid of the same dimensions, the verdict of the
  win check is true exactly when \<^verbatim>\<open>isRowComplete(r)\<close> is true for
  every row index \<open>r\<close> and \<^verbatim>\<open>isColComplete(c)\<close> is
  true for every column index \<open>c\<close>.
\<close>

theorem win_iff_all_lines_complete:
  assumes "equal_dimensions p pg"
  shows "isWin p pg =
         Inr ((\<forall>r < size_pz p. isRowComplete (Some p) pg r = Inr True) \<and>
              (\<forall>c < size_pz p. isColComplete (Some p) pg c = Inr True))"
  using assms
  by (auto simp: isWin_char isRowComplete_char isColComplete_char)

lemma cell_at_map:
  "cell_at (map (map f) pg) r c =
     (case cell_at pg r c of Inl e \<Rightarrow> Inl e | Inr v \<Rightarrow> Inr (map_option f v))"
  by (simp add: cell_at_def)

lemma keeps_filled_iff: "keeps_filled f \<Longrightarrow> (f s = FILLED) = (s = FILLED)"
  by (cases s) (auto simp: keeps_filled_def)

lemma mismatch_map:
  assumes "keeps_filled f"
  shows "mismatch t (map_option f v) = mismatch t v"
proof (cases v)
  case None
  then show ?thesis by (simp add: mismatch_def)
next
  case (Some s)
  then show ?thesis
    unfolding mismatch_def by (simp add: keeps_filled_iff[OF assms])
qed

lemma row_loop_map:
  "keeps_filled f \<Longrightarrow> row_loop p (map (map f) pg) r c = row_loop p pg r c"
proof (induction p pg r c rule: row_loop.induct)
  case (1 p pg rowIndex c)
  show ?case
    using 1
    by (auto simp: row_loop.simps[of p "map (map f) pg" rowIndex c] row_loop.simps[of p pg rowIndex c]
        cell_at_map mismatch_map split: sum.splits)
qed

lemma col_loop_map:
  "keeps_filled f \<Longrightarrow> col_loop p (map (map f) pg) c r = col_loop p pg c r"
proof (induction p pg c r rule: col_loop.induct)
  case (1 p pg colIndex r)
  show ?case
    using 1
    by (auto simp: col_loop.simps[of p "map (map f) pg" colIndex r] col_loop.simps[of p pg colIndex r]
        cell_at_map mismatch_map split: sum.splits)
qed

lemma win_cols_map:
  "keeps_filled f \<Longrightarrow> win_cols p (map (map f) pg) r c w = win_cols p pg r c w"
proof (induction p pg r c w rule: win_cols.induct)
  case (1 p pg r c w)
  show ?case
    using 1
    by (auto simp: win_cols.simps[of p "map (map f) pg" r c w] win_cols.simps[of p pg r c w]
        cell_at_map mismatch_map split: sum.splits)
qed

lemma win_rows_map:
  "keeps_filled f \<Longrightarrow> win_rows p (map (map f) pg) r w = win_rows p pg r w"
proof (induction p pg r w rule: win_rows.induct)
  case (1 p pg r w)
  show ?case
    using 1
    by (auto simp: win_rows.simps[of p "map (map f) pg" r w] win_rows.simps[of p pg r w]
        win_cols_map split: sum.splits)
qed

lemma verdicts_map:
  assumes "keeps_filled f"
  shows "isWin p (map (map f) pg) = isWin p pg"
    and "isRowComplete puzzle (map (map f) pg) r = isRowComplete puzzle pg r"
    and "isColComplete puzzle (map (map f) pg) c = isColComplete puzzle pg c"
  using assms
  by (simp_all add: isWin_def isRowComplete_def isColComplete_def win_rows_map row_loop_map
      col_loop_map split: option.splits)

lemma keeps_filled_crossed: "keeps_filled (\<lambda>s. if s = CROSSED then EMPTY else s)"
  by (simp add: keeps_filled_def)

lemma keeps_filled_empty: "keeps_filled (\<lambda>s. if s = EMPTY then CROSSED else s)"
  by (simp add: keeps_filled_def)

text \<open>
  C5: replacing every CROSSED cell of the player grid by EMPTY, or every EMPTY cell by
  CROSSED, changes no verdict: the win check,
  \<^verbatim>\<open>isRowComplete(r)\<close> and
  \<^verbatim>\<open>isColComplete(c)\<close> return the same value (or throw the same
  exception) on the original and on the modified grid, for every puzzle, grid and index.
\<close>

theorem crossed_empty_symmetry:
  "isWin p (replace_crossed pg) = isWin p pg \<and>
   isRowComplete puzzle (replace_crossed pg) r = isRowComplete puzzle pg r \<and>
   isColComplete puzzle (replace_crossed pg) c = isColComplete puzzle pg c \<and>
   isWin p (replace_empty pg) = isWin p pg \<and>
   isRowComplete puzzle (replace_empty pg) r = isRowComplete puzzle pg r \<and>
   isColComplete puzzle (replace_empty pg) c = isColComplete puzzle pg c"
  unfolding replace_crossed_def replace_empty_def
  by (intro conjI verdicts_map keeps_filled_crossed keeps_filled_empty)

lemma example_dims: "equal_dimensions example_puzzle example_player"
  by (simp add: equal_dimensions_def rows_of_length_def example_puzzle_def example_player_def)

lemma example_binary: "binary_cells (grid example_puzzle)"
  by (simp add: binary_cells_def example_puzzle_def)

lemma all_less_2: "(\<forall>r<2::nat. P r) = (P 0 \<and> P 1)"
  by (auto simp: less_2_cases_iff)

text \<open>
  The specification's 2 by 2 example satisfies the hypotheses of C3 and is won.
\<close>

theorem win_iff_every_cell_matches_witness:
  "equal_dimensions example_puzzle example_player \<and> binary_cells (grid example_puzzle) \<and>
   isWin example_puzzle example_player = Inr True"
proof -
  have "(\<forall>r < size_pz example_puzzle. \<forall>c < size_pz example_puzzle.
           cell_matches (grid example_puzzle ! r ! c) (example_player ! r ! c)) = True"
    by (simp add: example_puzzle_def example_player_def all_less_2 cell_matches_def)
  then show ?thesis
    using win_iff_every_cell_matches[OF example_dims example_binary] example_dims example_binary
    by simp
qed

text \<open>
  The same example for C4: the game is won and each of its four lines is complete.
\<close>

theorem win_iff_all_lines_complete_witness:
  "equal_dimensions example_puzzle example_player \<and>
   isWin example_puzzle example_player = Inr True \<and>
   isRowComplete (Some example_puzzle) example_player 0 = Inr True \<and>
   isRowComplete (Some example_puzzle) example_player 1 = Inr True \<and>
   isColComplete (Some example_puzzle) example_player 0 = Inr True \<and>
   isColComplete (Some example_puzzle) example_player 1 = Inr True"
proof -
  have w: "isWin example_puzzle example_player = Inr True"
    by (simp add: isWin_def win_rows.simps win_cols.simps example_puzzle_def example_player_def
        cell_at_def mismatch_def)
  have s: "size_pz example_puzzle = 2" by (simp add: example_puzzle_def)
  show ?thesis
    using win_iff_all_lines_complete[OF example_dims] example_dims w
    by (simp add: s all_less_2)
qed

text \<open>
  The same example for C5.
\<close>

theorem crossed_empty_symmetry_witness:
  "isWin example_puzzle (replace_crossed example_player) = Inr True \<and>
   isWin example_puzzle example_player = Inr True \<and>
   isRowComplete (Some example_puzzle) (replace_crossed example_player) 1 =
     isRowComplete (Some example_puzzle) example_player 1 \<and>
   isColComplete (Some example_puzzle) (replace_empty example_player) 1 =
     isColComplete (Some example_puzzle) example_player 1"
proof -
  have w: "isWin example_puzzle example_player = Inr True"
    by (simp add: isWin_def win_rows.simps win_cols.simps example_puzzle_def example_player_def
        cell_at_def mismatch_def)
  show ?thesis
    using crossed_empty_symmetry[of example_puzzle example_player "Some example_puzzle" 1 1] w
    by simp
qed

section \<open>Properties of the generator\<close>

lemma fold_invariant:
  "(\<And>x s. x \<in> set xs \<Longrightarrow> P s \<Longrightarrow> P (f x s)) \<Longrightarrow> P s \<Longrightarrow> P (fold f xs s)"
  by (induction xs arbitrary: s) auto

lemma nth_cell_update:
  "i < length g \<Longrightarrow>
   g[y := (g ! y)[x := v]] ! i = (if i = y then (g ! y)[x := v] else g ! i)"
  by simp

lemma rows_of_length_update:
  "rows_of_length n g \<Longrightarrow> rows_of_length n (g[y := (g ! y)[x := v]])"
  by (simp add: rows_of_length_def list_all_length nth_cell_update)

lemma list_all_update:
  "list_all P xs \<Longrightarrow> P v \<Longrightarrow> list_all P (xs[i := v])"
  unfolding list_all_iff using set_update_subset_insert[of xs i v] by auto

lemma binary_cells_update:
  assumes "binary_cells g" "v = 0 \<or> v = 1"
  shows "binary_cells (g[y := (g ! y)[x := v]])"
proof (cases "y < length g")
  case True
  then have "list_all (\<lambda>v. v = 0 \<or> v = 1) (g ! y)"
    using assms(1) by (simp add: binary_cells_def list_all_length)
  then have "list_all (\<lambda>v. v = 0 \<or> v = 1) ((g ! y)[x := v])"
    using assms(2) by (rule list_all_update)
  then show ?thesis
    using assms(1) unfolding binary_cells_def by (rule list_all_update[rotated])
next
  case False
  then have "g[y := (g ! y)[x := v]] = g" by (simp add: list_update_beyond)
  then show ?thesis using assms(1) by simp
qed

lemma rows_of_length_empty: "rows_of_length sz (empty_cells sz)"
  by (simp add: rows_of_length_def empty_cells_def list_all_length)

lemma binary_cells_empty: "binary_cells (empty_cells sz)"
  by (simp add: binary_cells_def empty_cells_def list_all_length)

lemma noise_cell_ok:
  "grid_ok sz (fst st) \<Longrightarrow> grid_ok sz (fst (noise_cell ar td y x st))"
  by (cases st)
     (auto simp: noise_cell_def grid_ok_def Let_def rows_of_length_update binary_cells_update
           split: prod.splits)

lemma noise_pass_ok:
  assumes "grid_ok sz (fst st)"
  shows "grid_ok sz (fst (noise_pass ar td sz st))"
  unfolding noise_pass_def
  by (rule fold_invariant[where P = "\<lambda>s. grid_ok sz (fst s)"],
      rule fold_invariant[where P = "\<lambda>s. grid_ok sz (fst s)"],
      rule noise_cell_ok, assumption, assumption, rule assms)

lemma noise_grid_ok: "grid_ok sz (noise_grid ar seed0 sz difficulty)"
proof -
  have "grid_ok sz (fst (noise_pass ar td sz (empty_cells sz, rng)))" for td rng
    by (rule noise_pass_ok) (simp add: grid_ok_def rows_of_length_empty binary_cells_empty)
  then show ?thesis
    by (auto simp: noise_grid_def target_and_noise_def Let_def split: prod.splits)
       (metis fst_conv)
qed

lemma fold_add_cells: "fold (\<lambda>cell fc. fc + cell) row (a::int) = a + sum_list row"
  by (induction row arbitrary: a) auto

lemma filled_count_concat: "filled_count g = sum_list (concat g)"
proof -
  have "fold (\<lambda>row fc. fold (\<lambda>cell fc. fc + cell) row fc) g a = a + sum_list (concat g)" for a
    by (induction g arbitrary: a) (auto simp: fold_add_cells)
  then show ?thesis by (simp add: filled_count_def)
qed

lemma binary_sum_bounds:
  "list_all (\<lambda>v. v = 0 \<or> v = 1) xs \<Longrightarrow> 0 \<le> sum_list xs \<and> sum_list xs \<le> int (length xs)"
  for xs :: "int list"
  by (induction xs) auto

lemma binary_sum_zero:
  "list_all (\<lambda>v. v = 0 \<or> v = 1) xs \<Longrightarrow> sum_list xs = 0 \<Longrightarrow> list_all (\<lambda>v. v = 0) xs"
  for xs :: "int list"
proof (induction xs)
  case Nil
  then show ?case by simp
next
  case (Cons a xs)
  have b: "list_all (\<lambda>v. v = 0 \<or> v = 1) xs" "a = 0 \<or> a = 1" "a + sum_list xs = 0"
    using Cons.prems by simp_all
  have "0 \<le> sum_list xs" using binary_sum_bounds[OF b(1)] by simp
  with b have "a = 0" "sum_list xs = 0" by linarith+
  with Cons.IH[OF b(1)] show ?case by simp
qed

lemma binary_sum_full:
  "list_all (\<lambda>v. v = 0 \<or> v = 1) xs \<Longrightarrow> sum_list xs = int (length xs) \<Longrightarrow>
   list_all (\<lambda>v. v = 1) xs"
  for xs :: "int list"
proof (induction xs)
  case Nil
  then show ?case by simp
next
  case (Cons a xs)
  have b: "list_all (\<lambda>v. v = 0 \<or> v = 1) xs" "a = 0 \<or> a = 1" "a + sum_list xs = 1 + int (length xs)"
    using Cons.prems by simp_all
  have "sum_list xs \<le> int (length xs)" using binary_sum_bounds[OF b(1)] by simp
  with b have "a = 1" "sum_list xs = int (length xs)" by linarith+
  with Cons.IH[OF b(1)] show ?case by simp
qed

lemma binary_sum_some_filled:
  "list_all (\<lambda>v. v = 0 \<or> v = 1) xs \<Longrightarrow> sum_list xs \<noteq> 0 \<Longrightarrow> list_ex (\<lambda>v. v = 1) xs"
  for xs :: "int list"
  by (induction xs) auto

lemma binary_sum_some_empty:
  "list_all (\<lambda>v. v = 0 \<or> v = 1) xs \<Longrightarrow> sum_list xs \<noteq> int (length xs) \<Longrightarrow>
   list_ex (\<lambda>v. v = 0) xs"
  for xs :: "int list"
  by (induction xs) auto

lemma binary_concat: "binary_cells g \<Longrightarrow> list_all (\<lambda>v. v = 0 \<or> v = 1) (concat g)"
  by (induction g) (auto simp: binary_cells_def)

lemma length_concat_rows:
  "list_all (\<lambda>row. length row = n) g \<Longrightarrow> length (concat g) = length g * n"
  by (induction g) auto

lemma length_concat_square:
  assumes "rows_of_length n g"
  shows "length (concat g) = n * n"
proof -
  have "length g = n" "list_all (\<lambda>row. length row = n) g"
    using assms by (simp_all add: rows_of_length_def)
  then show ?thesis using length_concat_rows[of n g] by simp
qed

lemma list_ex_concat: "list_ex P (concat g) = list_ex (list_ex P) g"
  by (induction g) auto

lemma list_all_concat: "list_all P (concat g) = list_all (list_all P) g"
  by (induction g) auto

lemma has_nth:
  assumes "y < length g" "x < length (g ! y)" "P (g ! y ! x)"
  shows "list_ex (list_ex P) g"
proof -
  have "g ! y \<in> set g" "g ! y ! x \<in> set (g ! y)" using assms by simp_all
  with assms(3) show ?thesis unfolding list_ex_iff by blast
qed

lemma has_filled_nth:
  "y < length g \<Longrightarrow> x < length (g ! y) \<Longrightarrow> g ! y ! x = 1 \<Longrightarrow> has_filled g"
  unfolding has_filled_def by (rule has_nth)

lemma has_empty_nth:
  "y < length g \<Longrightarrow> x < length (g ! y) \<Longrightarrow> g ! y ! x = 0 \<Longrightarrow> has_empty g"
  unfolding has_empty_def by (rule has_nth)

lemma set_cell_in_range:
  "rows_of_length n g \<Longrightarrow> y < n \<Longrightarrow> set_cell g y x v = Inr (g[y := (g ! y)[x := v]])"
  by (simp add: set_cell_def rows_of_length_def)

lemma safety_check_cases:
  assumes "rows_of_length sz g" "0 < sz"
  shows "safety_check sz g =
           Inr (if filled_count g = 0 then g[sz div 2 := (g ! (sz div 2))[sz div 2 := 1]]
                else if filled_count g = int (sz * sz) then g[0 := (g ! 0)[0 := 0]]
                else g)"
proof -
  have c: "sz div 2 < sz" using assms(2) by simp
  have nz: "int (sz * sz) \<noteq> 0" using assms(2) by simp
  note sc = set_cell_in_range[OF assms(1) c] set_cell_in_range[OF assms(1) assms(2)]
  show ?thesis
  proof (cases "filled_count g = 0")
    case True
    then have "filled_count g \<noteq> int (sz * sz)" using nz by simp
    with True show ?thesis unfolding safety_check_def Let_def by (simp add: sc)
  next
    case False
    then show ?thesis unfolding safety_check_def Let_def
      by (cases "filled_count g = int (sz * sz)") (simp_all add: sc)
  qed
qed

lemma write_row:
  assumes "y < length g" "k \<le> length (g ! y)"
  shows "fold (\<lambda>x g'. g'[y := (g' ! y)[x := F x]]) [0..<k] g =
         g[y := map F [0..<k] @ drop k (g ! y)]"
  using assms(2)
proof (induction k)
  case 0
  show ?case by simp
next
  case (Suc k)
  let ?A = "map F [0..<k] @ drop k (g ! y)"
  have k: "k < length (g ! y)" using Suc.prems by simp
  have d: "drop k (g ! y) = (g ! y) ! k # drop (Suc k) (g ! y)"
    using k by (simp add: Cons_nth_drop_Suc)
  have "fold (\<lambda>x g'. g'[y := (g' ! y)[x := F x]]) [0..<Suc k] g =
        (g[y := ?A])[y := (g[y := ?A] ! y)[k := F k]]"
    using Suc by simp
  also have "\<dots> = g[y := ?A[k := F k]]"
    using assms(1) by simp
  also have "?A[k := F k] = map F [0..<Suc k] @ drop (Suc k) (g ! y)"
    by (simp add: list_update_append d)
  finally show ?case .
qed

lemma write_all_prefix:
  assumes "rows_of_length sz g" "m \<le> sz"
  shows "fold (\<lambda>y. fold (\<lambda>x g'. g'[y := (g' ! y)[x := F y x]]) [0..<sz]) [0..<m] g =
         map (\<lambda>y. map (F y) [0..<sz]) [0..<m] @ drop m g"
  using assms(2)
proof (induction m)
  case 0
  show ?case by simp
next
  case (Suc m)
  let ?R = "\<lambda>y. map (F y) [0..<sz]"
  let ?G = "map ?R [0..<m] @ drop m g"
  have lg: "length g = sz" and rows: "\<And>i. i < sz \<Longrightarrow> length (g ! i) = sz"
    using assms(1) by (simp_all add: rows_of_length_def list_all_length)
  have m: "m < sz" using Suc.prems by simp
  have d: "drop m g = g ! m # drop (Suc m) g"
    using m lg by (simp add: Cons_nth_drop_Suc)
  have Gm: "?G ! m = g ! m" by (simp add: nth_append d)
  have lG: "m < length ?G" using m lg by simp
  have "fold (\<lambda>y. fold (\<lambda>x g'. g'[y := (g' ! y)[x := F y x]]) [0..<sz]) [0..<Suc m] g =
        fold (\<lambda>x g'. g'[m := (g' ! m)[x := F m x]]) [0..<sz] ?G"
    using Suc by simp
  also have "\<dots> = ?G[m := map (F m) [0..<sz] @ drop sz (?G ! m)]"
    by (rule write_row[OF lG]) (simp add: Gm rows[OF m])
  also have "\<dots> = ?G[m := ?R m]"
    by (simp add: Gm rows[OF m])
  also have "\<dots> = map ?R [0..<Suc m] @ drop (Suc m) g"
    by (simp add: list_update_append d)
  finally show ?case .
qed

lemma write_all:
  assumes "rows_of_length sz g"
  shows "fold (\<lambda>y. fold (\<lambda>x g'. g'[y := (g' ! y)[x := F y x]]) [0..<sz]) [0..<sz] g =
         map (\<lambda>y. map (F y) [0..<sz]) [0..<sz]"
proof -
  have "length g = sz" using assms by (simp add: rows_of_length_def)
  then show ?thesis using write_all_prefix[OF assms order_refl, of F] by simp
qed

lemma fold_count:
  "fold (\<lambda>d n. if P d then n + 1 else n) ds (n0::nat) = n0 + length (filter P ds)"
  by (induction ds arbitrary: n0) auto

lemma fold_add: "fold (\<lambda>d n. n + h d) ds (n0::nat) = n0 + sum_list (map h ds)"
  by (induction ds arbitrary: n0) auto

lemma count_neighbors_offsets:
  "count_neighbors sz g y x =
     length (filter (\<lambda>(dy, dx). offset_hits sz g y x dy dx) (List.product [-1, 0, 1] [-1, 0, 1]))"
proof -
  have body: "(\<lambda>dx neighbors.
             if dy = 0 \<and> dx = 0 then neighbors
             else
               (let ny = int y + dy; nx = int x + dx
                in if ny \<ge> 0 \<and> ny < int sz \<and> nx \<ge> 0 \<and> nx < int sz
                   then (if g ! nat ny ! nat nx = 1 then neighbors + 1 else neighbors)
                   else neighbors)) =
        (\<lambda>dx n. if offset_hits sz g y x dy dx then n + 1 else n)" for dy
    by (intro ext) (auto simp: offset_hits_def Let_def)
  have "count_neighbors sz g y x =
        fold (\<lambda>dy n. n + length (filter (offset_hits sz g y x dy) [-1, 0, 1])) [-1, 0, 1] 0"
    unfolding count_neighbors_def body fold_count ..
  also have "\<dots> = sum_list (map (\<lambda>dy. length (filter (offset_hits sz g y x dy) [-1, 0, 1])) [-1, 0, 1])"
    unfolding fold_add by simp
  also have "\<dots> = length (filter (\<lambda>(dy, dx). offset_hits sz g y x dy dx) (List.product [-1, 0, 1] [-1, 0, 1]))"
    by (simp add: filter_map comp_def)
  finally show ?thesis .
qed

lemma filter_window: "filter (\<lambda>i. lo \<le> i \<and> i < hi) [0..<n] = [lo..<min hi n]"
proof (induction n)
  case 0
  show ?case by simp
next
  case (Suc n)
  show ?case
  proof (cases "n < hi")
    case True
    then have m: "min hi n = n" "min hi (Suc n) = Suc n" by simp_all
    show ?thesis using Suc True by (simp add: m)
  next
    case False
    then have m: "min hi n = hi" "min hi (Suc n) = hi" by simp_all
    show ?thesis using Suc False by (simp add: m)
  qed
qed

lemma around_list:
  assumes "y < sz"
  shows "filter (\<lambda>ny. ny \<le> y + 1 \<and> y \<le> ny + 1) [0..<sz] =
         (if y = 0 then [] else [y - 1]) @ [y] @ (if Suc y < sz then [Suc y] else [])"
proof -
  have "(\<lambda>ny. ny \<le> y + 1 \<and> y \<le> ny + 1) = (\<lambda>ny. y - 1 \<le> ny \<and> ny < y + 2)"
    by (intro ext) auto
  then have e: "filter (\<lambda>ny. ny \<le> y + 1 \<and> y \<le> ny + 1) [0..<sz] = [y - 1..<min (y + 2) sz]"
    by (simp only: filter_window)
  show ?thesis
  proof (cases "Suc y < sz")
    case True
    then have "min (y + 2) sz = Suc (Suc y)" by simp
    then show ?thesis using True unfolding e by (cases y) (simp_all add: upt_rec)
  next
    case False
    then have "min (y + 2) sz = Suc y" using assms by simp
    then show ?thesis using False unfolding e by (cases y) (simp_all add: upt_rec)
  qed
qed

lemma filter_product:
  "filter (\<lambda>(a, b). A a \<and> B b \<and> R a b) (List.product xs ys) =
   filter (\<lambda>(a, b). R a b) (List.product (filter A xs) (filter B ys))"
proof (induction xs)
  case Nil
  show ?case by simp
next
  case (Cons a xs)
  have "filter (\<lambda>(a, b). A a \<and> B b \<and> R a b) (map (Pair a) ys) =
        (if A a then filter (\<lambda>(a, b). R a b) (map (Pair a) (filter B ys)) else [])"
    by (induction ys) auto
  then show ?case using Cons by simp
qed

lemma nat_offsets:
  "nat (1 + int n) = Suc n" "nat (2 + int n) = Suc (Suc n)"
  by simp_all

lemma moore_neighbors_product:
  "moore_neighbors sz y x =
     filter (\<lambda>(ny, nx). (ny, nx) \<noteq> (y, x))
       (List.product (filter (\<lambda>ny. ny \<le> y + 1 \<and> y \<le> ny + 1) [0..<sz])
                     (filter (\<lambda>nx. nx \<le> x + 1 \<and> x \<le> nx + 1) [0..<sz]))"
proof -
  have p: "(\<lambda>(ny, nx). ny \<le> y + 1 \<and> y \<le> ny + 1 \<and> nx \<le> x + 1 \<and> x \<le> nx + 1 \<and> (ny, nx) \<noteq> (y, x)) =
           (\<lambda>(ny, nx). (ny \<le> y + 1 \<and> y \<le> ny + 1) \<and> (nx \<le> x + 1 \<and> x \<le> nx + 1) \<and> (ny, nx) \<noteq> (y, x))"
    by (intro ext) auto
  show ?thesis unfolding moore_neighbors_def p by (rule filter_product)
qed

lemma moore_neighbors_offsets:
  assumes "y < sz" "x < sz"
  shows "moore_neighbors sz y x =
         map (offset_cell y x) (filter (offset_in_bounds sz y x) (List.product [-1, 0, 1] [-1, 0, 1]))"
  unfolding moore_neighbors_product around_list[OF assms(1)] around_list[OF assms(2)]
  using assms
  by (cases y; cases x; cases "Suc y < sz"; cases "Suc x < sz")
     (simp_all add: offset_cell_def offset_in_bounds_def nat_offsets)

lemma count_neighbors_spec:
  assumes "y < sz" "x < sz"
  shows "count_neighbors sz g y x = filled_neighbors sz g y x"
proof -
  let ?P9 = "List.product [-1, 0, 1] [-1, 0, (1::int)]"
  have h: "(\<lambda>(dy, dx). offset_hits sz g y x dy dx) =
        (\<lambda>p. offset_in_bounds sz y x p \<and> ((\<lambda>(ny, nx). g ! ny ! nx = 1) \<circ> offset_cell y x) p)"
    by (intro ext) (auto simp: offset_hits_def offset_in_bounds_def offset_cell_def)
  have "filled_neighbors sz g y x =
        length (filter ((\<lambda>(ny, nx). g ! ny ! nx = 1) \<circ> offset_cell y x)
                 (filter (offset_in_bounds sz y x) ?P9))"
    unfolding filled_neighbors_def moore_neighbors_offsets[OF assms] filter_map length_map ..
  also have "\<dots> = length (filter (\<lambda>(dy, dx). offset_hits sz g y x dy dx) ?P9)"
    unfolding filter_filter h ..
  finally show ?thesis unfolding count_neighbors_offsets by simp
qed

lemma length_moore_neighbors: "y < sz \<Longrightarrow> x < sz \<Longrightarrow> length (moore_neighbors sz y x) \<le> 8"
  by (simp add: moore_neighbors_offsets offset_in_bounds_def)

lemma smooth_cell_write:
  "smooth_cell sz g y x =
     (\<lambda>newGrid. newGrid[y := (newGrid ! y)[x := smooth_rule (g ! y ! x) (count_neighbors sz g y x)]])"
  by (intro ext) (simp add: smooth_cell_def smooth_rule_def Let_def)

lemma rows_of_length_map:
  "rows_of_length sz (map (\<lambda>y. map (F y) [0..<sz]) [0..<sz])"
  by (simp add: rows_of_length_def list_all_length)

lemma smooth_iteration_spec:
  assumes "rows_of_length sz g"
  shows "smooth_iteration sz g = smooth_spec sz g"
proof -
  let ?F = "\<lambda>y x. smooth_rule (g ! y ! x) (count_neighbors sz g y x)"
  let ?N = "map (\<lambda>y. map (?F y) [0..<sz]) [0..<sz]"
  have n: "fold (\<lambda>y. fold (\<lambda>x. smooth_cell sz g y x) [0..<sz]) [0..<sz] g = ?N"
    unfolding smooth_cell_write by (rule write_all[OF assms])
  have "copy_back sz ?N g = map (\<lambda>y. map (\<lambda>x. ?N ! y ! x) [0..<sz]) [0..<sz]"
    unfolding copy_back_def by (rule write_all[OF assms])
  also have "\<dots> = ?N" by simp
  also have "\<dots> = smooth_spec sz g"
    unfolding smooth_spec_def by (simp add: count_neighbors_spec)
  finally show ?thesis by (simp add: smooth_iteration_def n)
qed

lemma smooth_spec_ok: "grid_ok sz (smooth_spec sz g)"
  by (simp add: grid_ok_def smooth_spec_def rows_of_length_def binary_cells_def list_all_length
      smooth_rule_def)

lemma smoothing_spec:
  assumes "rows_of_length sz g"
  shows "smoothing sz g = smooth_spec sz (smooth_spec sz g)"
proof -
  have r: "rows_of_length sz (smooth_spec sz g)"
    using smooth_spec_ok[of sz g] by (simp add: grid_ok_def)
  have "[0..<iterations] = [0, 1]" by (simp add: iterations_def upt_rec)
  then show ?thesis
    by (simp add: smoothing_def smooth_iteration_spec[OF assms] smooth_iteration_spec[OF r])
qed

lemma smoothed_grid_eq:
  "smoothed_grid ar seed0 sz difficulty =
     (if smoothing_applies ar (targetDensity_of ar seed0 sz difficulty)
      then smoothing sz (noise_grid ar seed0 sz difficulty)
      else noise_grid ar seed0 sz difficulty)"
  by (simp add: smoothed_grid_def targetDensity_of_def noise_grid_def split: prod.splits)

lemma smoothed_grid_ok: "grid_ok sz (smoothed_grid ar seed0 sz difficulty)"
proof -
  have n: "grid_ok sz (noise_grid ar seed0 sz difficulty)" by (rule noise_grid_ok)
  then have "rows_of_length sz (noise_grid ar seed0 sz difficulty)" by (simp add: grid_ok_def)
  then have "smoothing sz (noise_grid ar seed0 sz difficulty) =
             smooth_spec sz (smooth_spec sz (noise_grid ar seed0 sz difficulty))"
    by (rule smoothing_spec)
  then have "grid_ok sz (smoothing sz (noise_grid ar seed0 sz difficulty))"
    by (simp add: smooth_spec_ok)
  with n show ?thesis
    by (simp add: smoothed_grid_eq)
qed

lemma generatePuzzle_result:
  assumes "0 < sz"
  shows "generatePuzzle ar seed0 sz difficulty =
         Inr \<lparr>title = ''Pattern #'' @ num_str ar seed0,
              grid = corrected sz (smoothed_grid ar seed0 sz difficulty),
              size_pz = sz, seed_pz = seed0\<rparr>"
proof -
  have "rows_of_length sz (smoothed_grid ar seed0 sz difficulty)"
    using smoothed_grid_ok[of sz ar seed0 difficulty] by (simp add: grid_ok_def)
  then have "safety_check sz (smoothed_grid ar seed0 sz difficulty) =
             Inr (corrected sz (smoothed_grid ar seed0 sz difficulty))"
    unfolding corrected_def center_filled_def corner_emptied_def
    by (rule safety_check_cases[OF _ assms])
  then show ?thesis unfolding generatePuzzle_def by simp
qed

lemma same_except_update:
  "same_except sz g (g[cy := (g ! cy)[cx := v]]) (cy, cx)"
proof -
  have "g[cy := (g ! cy)[cx := v]] ! y ! x = g ! y ! x" if "(y, x) \<noteq> (cy, cx)" for y x
  proof (cases "y = cy")
    case True
    then have "x \<noteq> cx" using that by simp
    show ?thesis
    proof (cases "cy < length g")
      case True
      then show ?thesis using \<open>y = cy\<close> \<open>x \<noteq> cx\<close> by simp
    next
      case False
      then show ?thesis by (simp add: list_update_beyond)
    qed
  next
    case False
    then show ?thesis by simp
  qed
  then show ?thesis by (simp add: same_except_def)
qed

lemma same_except_refl: "same_except sz g g cell"
  by (simp add: same_except_def)

lemma corrected_rows: "rows_of_length sz g \<Longrightarrow> rows_of_length sz (corrected sz g)"
  by (simp add: corrected_def center_filled_def corner_emptied_def rows_of_length_update)

section \<open>Claims about the generator\<close>

lemma Random_next_at_object:
  "Random_next_at ar this (w\<lparr>objects := (objects w)(this := rng)\<rparr>) =
     (fst (Random_next ar rng), w\<lparr>objects := (objects w)(this := snd (Random_next ar rng))\<rparr>)"
  by (simp add: Random_next_at_def split_def Let_def)

lemma noise_cell_at_object:
  "noise_cell_at ar this td y x (with_object w this st) =
   with_object w this (noise_cell ar td y x st)"
  by (cases st)
     (simp add: with_object_def noise_cell_at_def noise_cell_def Random_bool_at_def
        Random_bool_def Random_next_at_object split_def Let_def)

lemma fold_with_object:
  assumes "\<And>x st. f_at x (with_object w this st) = with_object w this (f x st)"
  shows "fold f_at xs (with_object w this st) = with_object w this (fold f xs st)"
  by (induction xs arbitrary: st) (simp_all add: assms)

lemma noise_pass_at_object:
  "fold (\<lambda>y. fold (noise_cell_at ar this td y) [0..<sz]) [0..<sz] (with_object w this st) =
   with_object w this (noise_pass ar td sz st)"
  unfolding noise_pass_def
  by (rule fold_with_object, rule fold_with_object, rule noise_cell_at_object)

lemma generatePuzzle_call_eq:
  "generatePuzzle_call ar w seed0 sz difficulty =
     (generatePuzzle ar seed0 sz difficulty,
      w\<lparr>objects := (objects w)(next_free w :=
            snd (noise_pass ar (targetDensity_of ar seed0 sz difficulty) sz
                  (empty_cells sz, snd (Random_next ar \<lparr>seed = seed0\<rparr>)))),
        next_free := Suc (next_free w)\<rparr>)"
proof -
  let ?a = "next_free w"
  let ?w0 = "w\<lparr>next_free := Suc ?a\<rparr>"
  let ?W = "\<lambda>r. ?w0\<lparr>objects := (objects ?w0)(?a := r)\<rparr>"
  let ?r0 = "\<lparr>seed = seed0\<rparr>"
  let ?r1 = "snd (Random_next ar ?r0)"
  let ?td = "targetDensity_of ar seed0 sz difficulty"
  let ?NP = "noise_pass ar ?td sz (empty_cells sz, ?r1)"
  have n: "new_Random seed0 w = (?a, ?W ?r0)"
    by (simp add: new_Random_def Let_def)
  have x: "Random_next_at ar ?a (?W ?r0) = (fst (Random_next ar ?r0), ?W ?r1)"
    by (rule Random_next_at_object)
  have td: "num_add ar (minDensity difficulty)
              (num_mul ar (fst (Random_next ar ?r0))
                 (num_sub ar (maxDensity difficulty) (minDensity difficulty))) = ?td"
    by (simp add: targetDensity_of_def target_and_noise_def draw_density_def split_def Let_def)
  have ng: "noise_grid ar seed0 sz difficulty = fst ?NP"
    by (simp add: noise_grid_def target_and_noise_def draw_density_def split_def Let_def
        td[symmetric])
  have "fold (\<lambda>y. fold (noise_cell_at ar ?a ?td y) [0..<sz]) [0..<sz]
             (with_object ?w0 ?a (empty_cells sz, ?r1)) = with_object ?w0 ?a ?NP"
    by (rule noise_pass_at_object)
  then have f: "fold (\<lambda>y. fold (noise_cell_at ar ?a ?td y) [0..<sz]) [0..<sz]
             (empty_cells sz, ?W ?r1) = (fst ?NP, ?W (snd ?NP))"
    by (simp only: with_object_def split_def fst_conv snd_conv)
  have "generatePuzzle_call ar w seed0 sz difficulty =
        (case safety_check sz
                (if smoothing_applies ar ?td then smoothing sz (fst ?NP) else fst ?NP) of
           Inl e \<Rightarrow> Inl e
         | Inr g3 \<Rightarrow>
             Inr \<lparr>title = ''Pattern #'' @ num_str ar seed0, grid = g3, size_pz = sz,
                  seed_pz = seed0\<rparr>,
         ?W (snd ?NP))"
    unfolding generatePuzzle_call_def
    by (simp only: n x td f Let_def prod.case)
  also have "\<dots> = (generatePuzzle ar seed0 sz difficulty, ?W (snd ?NP))"
    by (simp only: generatePuzzle_def smoothed_grid_eq ng)
  finally show ?thesis by simp
qed

text \<open>
  C1: two independent calls of \<^verbatim>\<open>generatePuzzle\<close> with the same seed, size and
  band return the same result, whatever the page's state is when each of them runs: the
  same grid cell by cell (with the same title, size and seed), or the same exception. The
  call draws only from the \<^verbatim>\<open>Random\<close> object it creates itself, so its result
  is the function \<open>generatePuzzle\<close> of the three inputs; the counters of the objects
  that exist already and the values \<^verbatim>\<open>Math.random()\<close> will return are neither
  read nor changed. In particular a second call, run in the state the first one left,
  repeats the first result.
\<close>

theorem generation_deterministic:
  "fst (generatePuzzle_call ar w' seed0 sz difficulty) =
     fst (generatePuzzle_call ar w seed0 sz difficulty) \<and>
   fst (generatePuzzle_call ar (snd (generatePuzzle_call ar w seed0 sz difficulty))
          seed0 sz difficulty) =
     fst (generatePuzzle_call ar w seed0 sz difficulty) \<and>
   fst (generatePuzzle_call ar w seed0 sz difficulty) = generatePuzzle ar seed0 sz difficulty \<and>
   (\<forall>a. a \<noteq> next_free w \<longrightarrow>
        objects (snd (generatePuzzle_call ar w seed0 sz difficulty)) a = objects w a) \<and>
   pending_random (snd (generatePuzzle_call ar w seed0 sz difficulty)) = pending_random w"
  by (simp add: generatePuzzle_call_eq)

text \<open>
  Seed 42, size 5 and the MEDIUM band in the two states of the page: the results agree,
  and the object at address 0 of the used page keeps its counter.
\<close>

theorem generation_deterministic_witness:
  "fst (generatePuzzle_call real_arith used_page 42 5 (DIFFICULTY_CONFIG real_arith MEDIUM)) =
     fst (generatePuzzle_call real_arith fresh_page 42 5 (DIFFICULTY_CONFIG real_arith MEDIUM)) \<and>
   (0::nat) \<noteq> next_free used_page \<and>
   objects (snd (generatePuzzle_call real_arith used_page 42 5
                  (DIFFICULTY_CONFIG real_arith MEDIUM))) 0 = \<lparr>seed = 7\<rparr>"
proof -
  have n: "(0::nat) \<noteq> next_free used_page" by (simp add: used_page_def)
  have o: "objects used_page 0 = \<lparr>seed = 7\<rparr>" by (simp add: used_page_def)
  show ?thesis
    using generation_deterministic[where ar = real_arith and w = used_page and w' = fresh_page
        and ?seed0.0 = 42 and sz = 5 and difficulty = "DIFFICULTY_CONFIG real_arith MEDIUM"] n o
    by simp
qed

lemma grid_ok_nth:
  assumes "grid_ok sz g" "y < sz" "x < sz"
  shows "y < length g" "x < length (g ! y)" "g ! y ! x = 0 \<or> g ! y ! x = 1"
  using assms by (simp_all add: grid_ok_def rows_of_length_def binary_cells_def list_all_length)

lemma all_cells_nth:
  assumes "rows_of_length sz g" "list_all P (concat g)" "y < sz" "x < sz"
  shows "P (g ! y ! x)"
proof -
  have "list_all (list_all P) g" using assms(2) by (simp only: list_all_concat)
  then show ?thesis using assms(1,3,4) by (simp add: rows_of_length_def list_all_length)
qed

text \<open>
  C2: for every seed, every band and every size of at least 2,
  \<^verbatim>\<open>generatePuzzle\<close> returns a grid with at least one filled cell
  and at least one empty cell. (No condition on the band is needed, so the bands with
  \<open>0 \<le> minDensity \<le> maxDensity \<le> 1\<close> are covered.)
\<close>

theorem generated_grid_not_degenerate:
  assumes "2 \<le> sz"
  shows "\<exists>p. generatePuzzle ar seed0 sz difficulty = Inr p \<and>
             has_filled (grid p) \<and> has_empty (grid p)"
proof -
  let ?g = "smoothed_grid ar seed0 sz difficulty"
  have ok: "grid_ok sz ?g" by (rule smoothed_grid_ok)
  then have rows: "rows_of_length sz ?g" and bin: "binary_cells ?g"
    by (simp_all add: grid_ok_def)
  have lg: "length ?g = sz" and lrow: "\<And>i. i < sz \<Longrightarrow> length (?g ! i) = sz"
    using rows by (simp_all add: rows_of_length_def list_all_length)
  have pos: "0 < sz" and one: "1 < sz" and c: "sz div 2 < sz" and c0: "sz div 2 \<noteq> 0"
    using assms by auto
  have bc: "list_all (\<lambda>v. v = 0 \<or> v = 1) (concat ?g)" by (rule binary_concat[OF bin])
  have lc: "length (concat ?g) = sz * sz" by (rule length_concat_square[OF rows])
  have "has_filled (corrected sz ?g) \<and> has_empty (corrected sz ?g)"
  proof (cases "filled_count ?g = 0")
    case True
    then have z: "list_all (\<lambda>v. v = 0) (concat ?g)"
      using binary_sum_zero[OF bc] by (simp add: filled_count_concat)
    let ?h = "?g[sz div 2 := (?g ! (sz div 2))[sz div 2 := 1]]"
    have h: "corrected sz ?g = ?h" using True by (simp add: corrected_def center_filled_def)
    have "?h ! (sz div 2) ! (sz div 2) = 1" using c lg lrow[OF c] by simp
    then have f: "has_filled ?h" using c lg lrow[OF c] by (intro has_filled_nth[of "sz div 2" _ "sz div 2"]) simp_all
    have "?h ! 0 ! 0 = ?g ! 0 ! 0" using c0 by simp
    also have "\<dots> = 0" by (rule all_cells_nth[OF rows z pos pos])
    finally have e: "has_empty ?h" using pos lg lrow[OF pos] c0
      by (intro has_empty_nth[of 0 _ 0]) simp_all
    show ?thesis using f e h by simp
  next
    case False
    show ?thesis
    proof (cases "filled_count ?g = int (sz * sz)")
      case True
      then have a: "list_all (\<lambda>v. v = 1) (concat ?g)"
        using binary_sum_full[OF bc] by (simp add: filled_count_concat lc)
      let ?h = "?g[0 := (?g ! 0)[0 := 0]]"
      have h: "corrected sz ?g = ?h" using True False by (simp add: corrected_def corner_emptied_def)
      have "?h ! 0 ! 0 = 0" using pos lg lrow[OF pos] by simp
      then have e: "has_empty ?h" using pos lg lrow[OF pos] by (intro has_empty_nth[of 0 _ 0]) simp_all
      have "?h ! 1 ! 1 = ?g ! 1 ! 1" by simp
      also have "\<dots> = 1" by (rule all_cells_nth[OF rows a one one])
      finally have f: "has_filled ?h" using one lg lrow[OF one]
        by (intro has_filled_nth[of 1 _ 1]) simp_all
      show ?thesis using f e h by simp
    next
      case nf: False
      have h: "corrected sz ?g = ?g" using False nf by (simp add: corrected_def)
      have "list_ex (\<lambda>v. v = 1) (concat ?g)"
        using binary_sum_some_filled[OF bc] False by (simp add: filled_count_concat)
      then have f: "has_filled ?g" by (simp add: has_filled_def list_ex_concat)
      have "list_ex (\<lambda>v. v = 0) (concat ?g)"
        using binary_sum_some_empty[OF bc] nf by (simp add: filled_count_concat lc)
      then have e: "has_empty ?g" by (simp add: has_empty_def list_ex_concat)
      show ?thesis using f e h by simp
    qed
  qed
  then show ?thesis using generatePuzzle_result[OF pos, of ar seed0 difficulty] by simp
qed

text \<open>
  Size 5 with seed 42 and the MEDIUM band.
\<close>

theorem generated_grid_not_degenerate_witness:
  "(2::nat) \<le> 5 \<and>
   (\<exists>p. generatePuzzle real_arith 42 5 (DIFFICULTY_CONFIG real_arith MEDIUM) = Inr p \<and>
        has_filled (grid p) \<and> has_empty (grid p))"
  using generated_grid_not_degenerate[of 5 real_arith 42 "DIFFICULTY_CONFIG real_arith MEDIUM"]
  by simp

text \<open>
  C6: whenever the drawn target density satisfies
  \<^verbatim>\<open>targetDensity > 0.3 && targetDensity < 0.8\<close>, the grid after
  step 2 is the noise grid smoothed exactly twice, where one smoothing
  (\<open>smooth_spec\<close>) computes every cell of a fresh grid from the
  pre-iteration grid: it counts the filled cells among the up to 8 Moore neighbours
  inside the grid; a filled cell stays filled iff the count is at least 3 and an empty
  cell becomes filled iff the count is at least 4.
\<close>

theorem smoothing_is_two_iterations:
  assumes "smoothing_applies ar (targetDensity_of ar seed0 sz difficulty)"
  shows "smoothed_grid ar seed0 sz difficulty =
         smooth_spec sz (smooth_spec sz (noise_grid ar seed0 sz difficulty))"
proof -
  have "rows_of_length sz (noise_grid ar seed0 sz difficulty)"
    using noise_grid_ok[of sz ar seed0 difficulty] by (simp add: grid_ok_def)
  then have "smoothing sz (noise_grid ar seed0 sz difficulty) =
             smooth_spec sz (smooth_spec sz (noise_grid ar seed0 sz difficulty))"
    by (rule smoothing_spec)
  then show ?thesis using assms by (simp add: smoothed_grid_eq)
qed

lemma targetDensity_real:
  "targetDensity_of real_arith s sz d =
     minDensity d + (sin s * 10000 - of_int \<lfloor>sin s * 10000\<rfloor>) * (maxDensity d - minDensity d)"
  by (simp add: targetDensity_of_def target_and_noise_def draw_density_def Random_next_def
      real_arith_def Let_def split: prod.splits)

lemma frac_part_bounds:
  fixes x :: real
  shows "0 \<le> x - of_int \<lfloor>x\<rfloor>" "x - of_int \<lfloor>x\<rfloor> < 1"
  by linarith+

lemma band_target:
  fixes f lo hi :: real
  assumes "0 \<le> f" "f < 1" "lo \<le> hi"
  shows "lo \<le> lo + f * (hi - lo)" "lo + f * (hi - lo) \<le> hi"
proof -
  have "0 \<le> f * (hi - lo)" using assms by simp
  then show "lo \<le> lo + f * (hi - lo)" by simp
  have "f * (hi - lo) \<le> 1 * (hi - lo)" using assms by (intro mult_right_mono) simp_all
  then show "lo + f * (hi - lo) \<le> hi" by simp
qed

lemma real_arith_fields:
  "num_lit real_arith r = r" "num_less real_arith a b = (a < b)"
  by (simp_all add: real_arith_def)

lemma medium_is_smoothed:
  "smoothing_applies real_arith (targetDensity_of real_arith s sz (DIFFICULTY_CONFIG real_arith MEDIUM))"
proof -
  have m: "minDensity (DIFFICULTY_CONFIG real_arith MEDIUM) = 0.5"
    "maxDensity (DIFFICULTY_CONFIG real_arith MEDIUM) = 0.7"
    by (simp_all add: real_arith_def)
  have "(0.5::real) \<le> 0.7" by simp
  note b = band_target[OF frac_part_bounds[of "sin s * 10000"] this]
  have "(0.3::real) < 0.5" "(0.7::real) < 0.8" by simp_all
  with b show ?thesis
    unfolding smoothing_applies_def targetDensity_real m real_arith_fields by linarith
qed

lemma very_easy_is_not_smoothed:
  "\<not> smoothing_applies real_arith (targetDensity_of real_arith s sz (DIFFICULTY_CONFIG real_arith VERY_EASY))"
proof -
  have m: "minDensity (DIFFICULTY_CONFIG real_arith VERY_EASY) = 0.9"
    "maxDensity (DIFFICULTY_CONFIG real_arith VERY_EASY) = 0.99"
    by (simp_all add: real_arith_def)
  have "(0.9::real) \<le> 0.99" by simp
  note b = band_target[OF frac_part_bounds[of "sin s * 10000"] this]
  have "(0.8::real) < 0.9" by simp
  with b show ?thesis
    unfolding smoothing_applies_def targetDensity_real m real_arith_fields by linarith
qed

text \<open>
  With exact real arithmetic the MEDIUM band always draws a density in
  \<open>[0.5, 0.7]\<close>, so seed 42 at size 5 is smoothed.
\<close>

theorem smoothing_is_two_iterations_witness:
  "smoothing_applies real_arith
     (targetDensity_of real_arith 42 5 (DIFFICULTY_CONFIG real_arith MEDIUM)) \<and>
   smoothed_grid real_arith 42 5 (DIFFICULTY_CONFIG real_arith MEDIUM) =
   smooth_spec 5 (smooth_spec 5 (noise_grid real_arith 42 5 (DIFFICULTY_CONFIG real_arith MEDIUM)))"
  using smoothing_is_two_iterations[OF medium_is_smoothed[of 42 5]] medium_is_smoothed[of 42 5]
  by simp

lemma corrected_same_except:
  "same_except sz g (corrected sz g) (sz div 2, sz div 2) \<or>
   same_except sz g (corrected sz g) (0, 0)"
proof (cases "filled_count g = 0")
  case True
  then have "corrected sz g = g[sz div 2 := (g ! (sz div 2))[sz div 2 := 1]]"
    by (simp add: corrected_def center_filled_def)
  then show ?thesis using same_except_update[of sz g "sz div 2" "sz div 2" 1] by simp
next
  case False
  show ?thesis
  proof (cases "filled_count g = int (sz * sz)")
    case True
    then have "corrected sz g = g[0 := (g ! 0)[0 := 0]]"
      using False by (simp add: corrected_def corner_emptied_def)
    then show ?thesis using same_except_update[of sz g 0 0 0] by simp
  next
    case nf: False
    then have "corrected sz g = g" using False by (simp add: corrected_def)
    then show ?thesis using same_except_refl[of sz g] by simp
  qed
qed

text \<open>
  C10: for every seed, band and size of at least 1,
  \<^verbatim>\<open>generatePuzzle\<close> returns, and the returned grid differs from
  the grid after step 2 in at most one cell. The two conditions of the safety check (no
  filled cell, every cell filled) exclude each other; under the first the centre cell is
  forced to 1, under the second cell \<open>(0, 0)\<close> is forced to 0, otherwise the
  grid is returned as it is. Every other cell is unchanged.
\<close>

theorem correction_changes_at_most_one_cell:
  assumes "1 \<le> sz"
  shows "\<exists>p. generatePuzzle ar seed0 sz difficulty = Inr p \<and>
           \<not> (filled_count (smoothed_grid ar seed0 sz difficulty) = 0 \<and>
              filled_count (smoothed_grid ar seed0 sz difficulty) = int (sz * sz)) \<and>
           grid p =
             (if filled_count (smoothed_grid ar seed0 sz difficulty) = 0
              then center_filled sz (smoothed_grid ar seed0 sz difficulty)
              else if filled_count (smoothed_grid ar seed0 sz difficulty) = int (sz * sz)
              then corner_emptied (smoothed_grid ar seed0 sz difficulty)
              else smoothed_grid ar seed0 sz difficulty) \<and>
           rows_of_length sz (grid p) \<and>
           (same_except sz (smoothed_grid ar seed0 sz difficulty) (grid p) (sz div 2, sz div 2) \<or>
            same_except sz (smoothed_grid ar seed0 sz difficulty) (grid p) (0, 0))"
proof -
  let ?g = "smoothed_grid ar seed0 sz difficulty"
  have pos: "0 < sz" using assms by simp
  then have x: "\<not> (filled_count ?g = 0 \<and> filled_count ?g = int (sz * sz))" by auto
  have rows: "rows_of_length sz (corrected sz ?g)"
    using smoothed_grid_ok[of sz ar seed0 difficulty] by (simp add: grid_ok_def corrected_rows)
  have c: "corrected sz ?g =
             (if filled_count ?g = 0 then center_filled sz ?g
              else if filled_count ?g = int (sz * sz) then corner_emptied ?g else ?g)"
    by (simp add: corrected_def)
  show ?thesis
    using generatePuzzle_result[OF pos, of ar seed0 difficulty] x rows c
      corrected_same_except[of sz ?g]
    by simp
qed

text \<open>
  Size 5 with seed 42 and the MEDIUM band; the centre cell is \<open>(2, 2)\<close>.
\<close>

theorem correction_changes_at_most_one_cell_witness:
  "(1::nat) \<le> 5 \<and>
   (\<exists>p. generatePuzzle real_arith 42 5 (DIFFICULTY_CONFIG real_arith MEDIUM) = Inr p \<and>
        rows_of_length 5 (grid p) \<and>
        (same_except 5 (smoothed_grid real_arith 42 5 (DIFFICULTY_CONFIG real_arith MEDIUM))
           (grid p) (2, 2) \<or>
         same_except 5 (smoothed_grid real_arith 42 5 (DIFFICULTY_CONFIG real_arith MEDIUM))
           (grid p) (0, 0)))"
proof -
  have d: "(5::nat) div 2 = 2" by simp
  show ?thesis
    using correction_changes_at_most_one_cell[of 5 real_arith 42 "DIFFICULTY_CONFIG real_arith MEDIUM"]
    unfolding d by auto
qed

lemma generatePuzzle_size_zero: "generatePuzzle ar seed0 0 difficulty = Inl TypeError"
proof -
  have "smoothed_grid ar seed0 0 difficulty = []"
    using smoothed_grid_ok[of 0 ar seed0 difficulty] by (simp add: grid_ok_def rows_of_length_def)
  then show ?thesis
    by (simp add: generatePuzzle_def safety_check_def filled_count_def set_cell_def)
qed

text \<open>
  C7: for every seed, size and band such that the drawn target density does not satisfy
  \<^verbatim>\<open>targetDensity > 0.3 && targetDensity < 0.8\<close> (0.3 and 0.8
  themselves included), no smoothing happens, and the grid
  \<^verbatim>\<open>generatePuzzle\<close> returns is the noise grid of step 1 except
  possibly at the single cell the safety check forces (the centre cell or cell
  \<open>(0, 0)\<close>). A grid is returned for every size of at least 1; at size 0,
  which the interface excludes, the safety check writes into a row that does not exist
  and the call throws.
\<close>

theorem unsmoothed_output_is_noise:
  assumes "\<not> smoothing_applies ar (targetDensity_of ar seed0 sz difficulty)"
  shows "smoothed_grid ar seed0 sz difficulty = noise_grid ar seed0 sz difficulty \<and>
         (\<forall>p. generatePuzzle ar seed0 sz difficulty = Inr p \<longrightarrow>
           grid p =
             (if filled_count (noise_grid ar seed0 sz difficulty) = 0
              then center_filled sz (noise_grid ar seed0 sz difficulty)
              else if filled_count (noise_grid ar seed0 sz difficulty) = int (sz * sz)
              then corner_emptied (noise_grid ar seed0 sz difficulty)
              else noise_grid ar seed0 sz difficulty) \<and>
           rows_of_length sz (grid p) \<and>
           (same_except sz (noise_grid ar seed0 sz difficulty) (grid p) (sz div 2, sz div 2) \<or>
            same_except sz (noise_grid ar seed0 sz difficulty) (grid p) (0, 0))) \<and>
         (1 \<le> sz \<longrightarrow> (\<exists>p. generatePuzzle ar seed0 sz difficulty = Inr p)) \<and>
         (sz = 0 \<longrightarrow> generatePuzzle ar seed0 sz difficulty = Inl TypeError)"
proof -
  let ?n = "noise_grid ar seed0 sz difficulty"
  have e: "smoothed_grid ar seed0 sz difficulty = ?n"
    using assms by (simp add: smoothed_grid_eq)
  have rows: "rows_of_length sz (corrected sz ?n)"
    using noise_grid_ok[of sz ar seed0 difficulty] by (simp add: grid_ok_def corrected_rows)
  have c: "corrected sz ?n =
             (if filled_count ?n = 0 then center_filled sz ?n
              else if filled_count ?n = int (sz * sz) then corner_emptied ?n else ?n)"
    by (simp add: corrected_def)
  show ?thesis
  proof (cases "sz = 0")
    case True
    then show ?thesis using e generatePuzzle_size_zero[of ar seed0 difficulty] by simp
  next
    case False
    then have pos: "0 < sz" by simp
    show ?thesis
      using generatePuzzle_result[OF pos, of ar seed0 difficulty] rows c
        corrected_same_except[of sz ?n] False
      unfolding e by simp
  qed
qed

text \<open>
  With exact real arithmetic the VERY_EASY band always draws a density of at least 0.9,
  so seed 42 at size 5 is not smoothed.
\<close>

theorem unsmoothed_output_is_noise_witness:
  "\<not> smoothing_applies real_arith
       (targetDensity_of real_arith 42 5 (DIFFICULTY_CONFIG real_arith VERY_EASY)) \<and>
   (1::nat) \<le> 5 \<and>
   smoothed_grid real_arith 42 5 (DIFFICULTY_CONFIG real_arith VERY_EASY) =
   noise_grid real_arith 42 5 (DIFFICULTY_CONFIG real_arith VERY_EASY) \<and>
   (\<exists>p. generatePuzzle real_arith 42 5 (DIFFICULTY_CONFIG real_arith VERY_EASY) = Inr p \<and>
        rows_of_length 5 (grid p))"
proof -
  have h: "\<not> smoothing_applies real_arith
       (targetDensity_of real_arith 42 5 (DIFFICULTY_CONFIG real_arith VERY_EASY))"
    by (rule very_easy_is_not_smoothed)
  show ?thesis
    using unsmoothed_output_is_noise[OF h] h by auto
qed

lemma singleton_list: "length xs = 1 \<Longrightarrow> xs = [xs ! 0]"
  by (cases xs) simp_all

lemma single_cell_shape:
  assumes "grid_ok 1 g"
  shows "g = [[g ! 0 ! 0]]" "g ! 0 ! 0 = 0 \<or> g ! 0 ! 0 = 1"
proof -
  have "length g = 1" "length (g ! 0) = 1"
    using assms by (simp_all add: grid_ok_def rows_of_length_def list_all_length)
  then have "g = [g ! 0]" "g ! 0 = [g ! 0 ! 0]" by (simp_all add: singleton_list[symmetric])
  then show "g = [[g ! 0 ! 0]]" by simp
  show "g ! 0 ! 0 = 0 \<or> g ! 0 ! 0 = 1"
    using grid_ok_nth(3)[OF assms, of 0 0] by simp
qed

lemma smooth_spec_single: "smooth_spec 1 g = [[0]]"
  by (simp add: smooth_spec_def filled_neighbors_def moore_neighbors_def smooth_rule_def)

text \<open>
  C8: for every seed and band, generation with size 1 returns a 1 by 1 grid. The grid
  after step 2 is \<open>[[v]]\<close> with \<open>v\<close> 0 or 1, exactly one of the
  two conditions of the safety check holds for it, and the returned cell is the negation
  \<open>1 - v\<close>; when the smoothing ran the returned grid is
  \<open>[[1]]\<close>.
\<close>

theorem single_cell_generation:
  "\<exists>v p. (v = 0 \<or> v = 1) \<and> smoothed_grid ar seed0 1 difficulty = [[v]] \<and>
         ((filled_count [[v]] = 0) \<noteq> (filled_count [[v]] = int (1 * 1))) \<and>
         generatePuzzle ar seed0 1 difficulty = Inr p \<and> grid p = [[1 - v]] \<and>
         (smoothing_applies ar (targetDensity_of ar seed0 1 difficulty) \<longrightarrow> grid p = [[1]])"
proof -
  let ?g = "smoothed_grid ar seed0 1 difficulty"
  let ?v = "?g ! 0 ! 0"
  have ok: "grid_ok 1 ?g" by (rule smoothed_grid_ok)
  have g: "?g = [[?v]]" and v: "?v = 0 \<or> ?v = 1" using single_cell_shape[OF ok] by simp_all
  have fc: "filled_count [[?v]] = ?v" by (simp add: filled_count_def)
  have x: "(filled_count [[?v]] = 0) \<noteq> (filled_count [[?v]] = int (1 * 1))"
    unfolding fc using v by auto
  have "corrected 1 [[?v]] = [[1 - ?v]]"
    unfolding corrected_def fc using v by (auto simp: center_filled_def corner_emptied_def)
  then have c: "corrected 1 ?g = [[1 - ?v]]" using g by simp
  have s: "?v = 0" if "smoothing_applies ar (targetDensity_of ar seed0 1 difficulty)"
  proof -
    have "?g = smoothing 1 (noise_grid ar seed0 1 difficulty)"
      using that by (simp add: smoothed_grid_eq)
    also have "\<dots> = smooth_spec 1 (smooth_spec 1 (noise_grid ar seed0 1 difficulty))"
      using noise_grid_ok[of 1 ar seed0 difficulty]
      by (intro smoothing_spec) (simp add: grid_ok_def)
    also have "\<dots> = [[0]]" by (rule smooth_spec_single)
    finally show ?thesis by simp
  qed
  have r: "generatePuzzle ar seed0 1 difficulty =
         Inr \<lparr>title = ''Pattern #'' @ num_str ar seed0, grid = [[1 - ?v]],
              size_pz = 1, seed_pz = seed0\<rparr>"
    using generatePuzzle_result[of 1 ar seed0 difficulty] c by simp
  show ?thesis
    apply (rule exI[of _ ?v])
    apply (rule exI[of _ "\<lparr>title = ''Pattern #'' @ num_str ar seed0, grid = [[1 - ?v]],
              size_pz = 1, seed_pz = seed0\<rparr>"])
    using v g x r s by simp
qed

text \<open>
  Seed 42 with the MEDIUM band at size 1: the smoothing runs and the result is
  \<open>[[1]]\<close>.
\<close>

theorem single_cell_generation_witness:
  "smoothing_applies real_arith
     (targetDensity_of real_arith 42 1 (DIFFICULTY_CONFIG real_arith MEDIUM)) \<and>
   (\<exists>p. generatePuzzle real_arith 42 1 (DIFFICULTY_CONFIG real_arith MEDIUM) = Inr p \<and>
        grid p = [[1]])"
  using single_cell_generation[of real_arith 42 "DIFFICULTY_CONFIG real_arith MEDIUM"]
    medium_is_smoothed[of 42 1]
  by auto

section \<open>Claims about the seed derivation\<close>

lemma ToInt32_range: "- (2 ^ 31) \<le> ToInt32 n \<and> ToInt32 n < 2 ^ 31"
proof -
  have "0 \<le> (n + 2 ^ 31) mod 2 ^ 32" "(n + 2 ^ 31) mod 2 ^ 32 < (2 ^ 32 :: int)"
    by simp_all
  then show ?thesis unfolding ToInt32_def by simp
qed

lemma ToInt32_mod: "ToInt32 a mod 2 ^ 32 = a mod 2 ^ 32"
proof -
  have "ToInt32 a mod 2 ^ 32 = ((a + 2 ^ 31) mod 2 ^ 32 - 2 ^ 31) mod 2 ^ 32"
    by (simp add: ToInt32_def)
  also have "\<dots> = ((a + 2 ^ 31) - 2 ^ 31) mod 2 ^ 32"
    by (rule mod_diff_left_eq)
  finally show ?thesis by simp
qed

lemma ToInt32_cong:
  assumes "a mod 2 ^ 32 = b mod 2 ^ 32"
  shows "ToInt32 a = ToInt32 b"
proof -
  have "(a + 2 ^ 31) mod 2 ^ 32 = (a mod 2 ^ 32 + 2 ^ 31) mod 2 ^ 32"
    by (rule mod_add_left_eq[symmetric])
  also have "\<dots> = (b + 2 ^ 31) mod 2 ^ 32"
    unfolding assms by (rule mod_add_left_eq)
  finally show ?thesis by (simp only: ToInt32_def)
qed

lemma ToInt32_id: "- (2 ^ 31) \<le> v \<Longrightarrow> v < 2 ^ 31 \<Longrightarrow> ToInt32 v = v"
  unfolding ToInt32_def by simp

lemma cong_add:
  fixes a b k m :: int
  shows "a mod m = b mod m \<Longrightarrow> (a + k) mod m = (b + k) mod m"
  by (metis mod_add_left_eq)

lemma cong_mult:
  fixes a b k m :: int
  shows "a mod m = b mod m \<Longrightarrow> (a * k) mod m = (b * k) mod m"
  by (metis mod_mult_left_eq)

lemma hash_step_poly: "hash_step c h = ToInt32 (31 * h + uint c)"
proof -
  have "(ToInt32 (ToInt32 h * 2 ^ 5) + (uint c - h)) mod 2 ^ 32 =
        (ToInt32 h * 2 ^ 5 + (uint c - h)) mod 2 ^ 32"
    by (rule cong_add[OF ToInt32_mod])
  also have "\<dots> = (h * 2 ^ 5 + (uint c - h)) mod 2 ^ 32"
    by (rule cong_add[OF cong_mult[OF ToInt32_mod]])
  finally have "(ToInt32 (ToInt32 h * 2 ^ 5) + (uint c - h)) mod 2 ^ 32 =
        (h * 2 ^ 5 + (uint c - h)) mod 2 ^ 32" .
  moreover have "ToInt32 (ToInt32 h * 2 ^ 5) - h + uint c =
                 ToInt32 (ToInt32 h * 2 ^ 5) + (uint c - h)" by simp
  moreover have "h * 2 ^ 5 + (uint c - h) = 31 * h + uint c" by simp
  ultimately have "(ToInt32 (ToInt32 h * 2 ^ 5) - h + uint c) mod 2 ^ 32 =
                   (31 * h + uint c) mod 2 ^ 32" by (simp only:)
  then show ?thesis
    unfolding hash_step_def Let_def by (rule ToInt32_cong)
qed

lemma poly_cong:
  "h1 mod 2 ^ 32 = h2 mod 2 ^ 32 \<Longrightarrow>
   foldl (\<lambda>h c. 31 * h + uint c) h1 str mod 2 ^ 32 =
   foldl (\<lambda>h (c::16 word). 31 * h + uint c) h2 str mod 2 ^ 32"
proof (induction str arbitrary: h1 h2)
  case Nil
  then show ?case by simp
next
  case (Cons c str)
  have "(h1 * 31) mod 2 ^ 32 = (h2 * 31) mod 2 ^ 32"
    using Cons.prems by (rule cong_mult)
  then have "(h1 * 31 + uint c) mod 2 ^ 32 = (h2 * 31 + uint c) mod 2 ^ 32"
    by (rule cong_add)
  then have "(31 * h1 + uint c) mod 2 ^ 32 = (31 * h2 + uint c) mod 2 ^ 32"
    by (simp only: mult.commute)
  then show ?case using Cons.IH[of "31 * h1 + uint c" "31 * h2 + uint c"] by simp
qed

lemma fold_hash_poly:
  "fold hash_step str h mod 2 ^ 32 = foldl (\<lambda>h c. 31 * h + uint c) h str mod 2 ^ 32"
proof (induction str arbitrary: h)
  case Nil
  show ?case by simp
next
  case (Cons c str)
  have "hash_step c h mod 2 ^ 32 = (31 * h + uint c) mod 2 ^ 32"
    by (simp only: hash_step_poly ToInt32_mod)
  then have "foldl (\<lambda>h c. 31 * h + uint c) (hash_step c h) str mod 2 ^ 32 =
             foldl (\<lambda>h c. 31 * h + uint c) (31 * h + uint c) str mod 2 ^ 32"
    by (rule poly_cong)
  then show ?case using Cons[of "hash_step c h"] by simp
qed

lemma hash_step_range: "- (2 ^ 31) \<le> hash_step c h \<and> hash_step c h < 2 ^ 31"
  unfolding hash_step_def Let_def by (rule ToInt32_range)

lemma fold_hash_range:
  assumes "str \<noteq> []"
  shows "- (2 ^ 31) \<le> fold hash_step str h \<and> fold hash_step str h < 2 ^ 31"
proof -
  obtain xs x where "str = xs @ [x]" using assms by (metis rev_exhaust)
  then show ?thesis using hash_step_range[of x "fold hash_step xs h"] by simp
qed

lemma stringToSeed_polynomial: "stringToSeed str = \<bar>ToInt32 (polynomial_hash str)\<bar>"
proof (cases "str = []")
  case True
  then show ?thesis by (simp add: stringToSeed_def polynomial_hash_def ToInt32_def)
next
  case False
  have "fold hash_step str 0 = ToInt32 (fold hash_step str 0)"
    using fold_hash_range[OF False, of 0] by (simp add: ToInt32_id)
  also have "\<dots> = ToInt32 (polynomial_hash str)"
    unfolding polynomial_hash_def by (rule ToInt32_cong) (rule fold_hash_poly)
  finally show ?thesis using False by (simp add: stringToSeed_def)
qed

lemma stringToSeed_range: "0 \<le> stringToSeed str \<and> stringToSeed str \<le> 2 ^ 31"
proof (cases "str = []")
  case True
  then show ?thesis by (simp add: stringToSeed_def)
next
  case False
  then show ?thesis using fold_hash_range[OF False, of 0] by (auto simp: stringToSeed_def abs_if)
qed

lemma trim_nonempty: "trim sv \<noteq> [] \<Longrightarrow> sv \<noteq> []"
  by (auto simp: trim_def)

text \<open>
  C9, as the code has it: a text with at least one character that is not white space is
  parsed as a decimal number when it consists of digits only, and is otherwise hashed by
  \<^verbatim>\<open>stringToSeed\<close>, a rolling hash of its characters (the
  accumulator times 31 plus the character code, wrapped to 32 bits, and the absolute
  value at the end, between 0 and \<open>2^31\<close>). In both cases the seed does not
  depend on the random source: the same text gives the same seed. An empty text or one
  of white space only gets
  \<^verbatim>\<open>Math.floor(Math.random() * 2000000000)\<close>.
\<close>

theorem seed_from_text:
  "finalSeed ar random (Some input) =
     (if trim input = [] then Math_floor ar (num_mul ar random (num_lit ar 2000000000))
      else if all_digits input then parseInt_digits ar input
      else num_lit ar (real_of_int (stringToSeed input))) \<and>
   (trim input \<noteq> [] \<longrightarrow> finalSeed ar random (Some input) = finalSeed ar random' (Some input)) \<and>
   stringToSeed input = \<bar>ToInt32 (polynomial_hash input)\<bar> \<and>
   0 \<le> stringToSeed input \<and> stringToSeed input \<le> 2 ^ 31"
proof -
  have "finalSeed ar r (Some input) =
     (if trim input = [] then Math_floor ar (num_mul ar r (num_lit ar 2000000000))
      else if all_digits input then parseInt_digits ar input
      else num_lit ar (real_of_int (stringToSeed input)))" for r
    using trim_nonempty[of input] by (auto simp: finalSeed_def)
  then show ?thesis
    using stringToSeed_range[of input] stringToSeed_polynomial[of input] by simp
qed

text \<open>
  The text \<^verbatim>\<open>abc\<close> hashes to 96354 whatever the random source
  returns, and the text \<^verbatim>\<open>42\<close> is parsed as 42.
\<close>

theorem seed_from_text_witness:
  "trim [0x61, 0x62, 0x63] \<noteq> [] \<and> \<not> all_digits [0x61, 0x62, 0x63] \<and>
   finalSeed real_arith 0.25 (Some [0x61, 0x62, 0x63]) = 96354 \<and>
   finalSeed real_arith 0.5 (Some [0x61, 0x62, 0x63]) = 96354 \<and>
   trim [0x34, 0x32] \<noteq> [] \<and> all_digits [0x34, 0x32] \<and>
   finalSeed real_arith 0.25 (Some [0x34, 0x32]) = 42"
proof -
  have t: "trim [0x61, 0x62, 0x63] \<noteq> []" "trim [0x34, 0x32] \<noteq> []"
    by (simp_all add: trim_def is_whitespace_def)
  have d: "\<not> all_digits [0x61, 0x62, 0x63]" "all_digits [0x34, 0x32]"
    by (simp_all add: all_digits_def is_digit_def)
  have h: "stringToSeed [0x61, 0x62, 0x63] = 96354"
    by (simp add: stringToSeed_def hash_step_def ToInt32_def)
  have p: "parseInt_digits real_arith [0x34, 0x32] = 42"
    by (simp add: parseInt_digits_def decimal_value_def real_arith_def)
  have l: "num_lit real_arith r = r" for r by (simp add: real_arith_def)
  show ?thesis
    using seed_from_text[of real_arith "0.25" "[0x61, 0x62, 0x63]" "0.5"]
      seed_from_text[of real_arith "0.25" "[0x34, 0x32]" "0.5"] t d
    by (simp add: h p l)
qed

text \<open>
  C9 as stated fails for the text of one space: it is not purely numeric, yet its seed
  is not the hash of its characters (32) but comes from the random source, and two calls
  with the same text get different seeds when \<^verbatim>\<open>Math.random()\<close>
  returns 0.25 and then 0.5.
\<close>

theorem blank_text_seed_counterexample:
  "\<not> all_digits [0x20] \<and>
   finalSeed real_arith 0.25 (Some [0x20]) \<noteq> num_lit real_arith (real_of_int (stringToSeed [0x20])) \<and>
   finalSeed real_arith 0.25 (Some [0x20]) \<noteq> finalSeed real_arith 0.5 (Some [0x20])"
proof -
  have a: "finalSeed real_arith 0.25 (Some [0x20]) = 500000000"
    by (simp add: finalSeed_def trim_def is_whitespace_def real_arith_def)
  have b: "finalSeed real_arith 0.5 (Some [0x20]) = 1000000000"
    by (simp add: finalSeed_def trim_def is_whitespace_def real_arith_def)
  have c: "stringToSeed [0x20] = 32"
    by (simp add: stringToSeed_def hash_step_def ToInt32_def)
  have d: "\<not> all_digits [0x20]" by (simp add: all_digits_def is_digit_def)
  show ?thesis unfolding a b c using d by (simp add: real_arith_def)
qed

end
